theory Spec2Isabelle
  imports Complex_Main "HOL-Library.Char_ord" "HOL-Library.List_Lexorder" "HOL-Library.Multiset"
begin

section \<open>Raw upstream payload and the internal Article model\<close>

text \<open>
  Strings are lists of 8-bit characters. The upstream JSON is loosely typed
  (\<^verbatim>\<open>any\<close> in the source): an optional field is an \<open>option\<close>, and the
  \<^verbatim>\<open>author\<close> field, which the service sends as an array, a single object
  or not at all, is a datatype with one constructor per shape.
\<close>

datatype venue_type = Journal | Conference | Editorship | Unknown

record dblp_author =
  au_text :: "string option"
  au_pid :: "string option"

datatype author_data =
    AuthorMissing
  | AuthorArray "dblp_author list"
  | AuthorObject dblp_author
  | AuthorScalar

record raw_info =
  i_type :: "string option"
  i_key :: "string option"
  i_title :: "string option"
  i_venue :: "string option"
  i_year :: "string option"
  i_doi :: "string option"
  i_url :: "string option"
  i_authors :: "author_data option"

record raw_hit =
  h_id :: "string option"
  h_info :: "raw_info option"

record article =
  a_id :: string
  a_title :: string
  a_authors :: "string list"
  a_venue :: string
  a_venueType :: venue_type
  a_year :: string
  a_type :: string
  a_doi :: "string option"
  a_url :: "string option"
  a_key :: "string option"
  a_selected :: bool

subsection \<open>JavaScript truthiness of optional strings\<close>

text \<open>\<^verbatim>\<open>x || d\<close> on a string that may be undefined: the empty string is falsy too.\<close>

definition truthy :: "string option \<Rightarrow> bool" where
  "truthy s = (case s of None \<Rightarrow> False | Some t \<Rightarrow> t \<noteq> [])"

definition or_else :: "string option \<Rightarrow> string \<Rightarrow> string" where
  "or_else s d = (case s of None \<Rightarrow> d | Some t \<Rightarrow> if t = [] then d else t)"

definition startsWith :: "string \<Rightarrow> string \<Rightarrow> bool" where
  "startsWith s p = (take (length p) s = p)"

subsection \<open>Record normalisation helpers\<close>

text \<open>
  \<^verbatim>\<open>cleanText\<close>: the DOM parser is the browser's; \<open>txt\<close> stands for what
  \<^verbatim>\<open>doc.body.textContent || ""\<close> yields (or the raw text when parsing throws).
\<close>

definition cleanText :: "(string \<Rightarrow> string) \<Rightarrow> string option \<Rightarrow> string" where
  "cleanText txt text = (if \<not> truthy text then [] else txt (the text))"

definition getVenueType :: "string option \<Rightarrow> string \<Rightarrow> venue_type" where
  "getVenueType ty key =
     (if ty = Some ''Article'' \<or> (key \<noteq> [] \<and> startsWith key ''journals/'') then Journal
      else if ty = Some ''Inproceedings'' \<or> (key \<noteq> [] \<and> startsWith key ''conf/'') then Conference
      else if ty = Some ''Editorship'' then Editorship
      else Unknown)"

text \<open>
  \<^verbatim>\<open>parseAuthors(info)\<close>. \<open>None\<close> for \<open>info\<close> is a falsy \<^verbatim>\<open>info\<close>;
  \<open>i_authors = None\<close> is a missing \<^verbatim>\<open>info.authors\<close>; \<open>AuthorMissing\<close> is a
  falsy \<^verbatim>\<open>info.authors.author\<close>. An array, also an empty one, is truthy in
  JavaScript and takes the \<^verbatim>\<open>Array.isArray\<close> branch.
\<close>

definition parseAuthors :: "(string \<Rightarrow> string) \<Rightarrow> raw_info option \<Rightarrow> string list" where
  "parseAuthors txt info =
     (case info of
        None \<Rightarrow> [''Unknown Author'']
      | Some nfo \<Rightarrow>
          (case i_authors nfo of
             None \<Rightarrow> [''Unknown Author'']
           | Some AuthorMissing \<Rightarrow> [''Unknown Author'']
           | Some (AuthorArray arr) \<Rightarrow> map (\<lambda>a. cleanText txt (au_text a)) arr
           | Some (AuthorObject a) \<Rightarrow> [cleanText txt (au_text a)]
           | Some AuthorScalar \<Rightarrow> [''Unknown Author'']))"

definition empty_info :: raw_info where
  "empty_info = \<lparr> i_type = None, i_key = None, i_title = None, i_venue = None,
                  i_year = None, i_doi = None, i_url = None, i_authors = None \<rparr>"

text \<open>
  The body of the \<^verbatim>\<open>rawArticles.map\<close> callback. \<open>rnd\<close> is the string
  \<^verbatim>\<open>Math.random().toString()\<close> would give for this hit.
\<close>

definition toArticle :: "(string \<Rightarrow> string) \<Rightarrow> string \<Rightarrow> raw_hit \<Rightarrow> article" where
  "toArticle txt rnd hit =
     (let info = (case h_info hit of None \<Rightarrow> empty_info | Some nfo \<Rightarrow> nfo);
          venueType = getVenueType (i_type info) (or_else (i_key info) [])
      in \<lparr> a_id = or_else (h_id hit) (or_else (i_key info) rnd),
           a_title = cleanText txt (i_title info),
           a_authors = parseAuthors txt (Some info),
           a_venue = cleanText txt (i_venue info),
           a_venueType = venueType,
           a_year = or_else (i_year info) [],
           a_type = or_else (i_type info) ''Unknown'',
           a_doi = i_doi info,
           a_url = i_url info,
           a_key = i_key info,
           a_selected = False \<rparr>)"


section \<open>Client-side filtering\<close>

datatype search_mode = KeywordMode | UrlMode

datatype type_filter = FilterAll | FilterJournal | FilterConference

record search_params =
  p_mode :: search_mode
  p_query :: string
  p_yearStart :: "string option"
  p_yearEnd :: "string option"
  p_typeFilter :: type_filter
  p_maxResults :: nat

definition isWhiteSpace :: "char \<Rightarrow> bool" where
  "isWhiteSpace c = (let n = (of_char c :: nat) in
     n = 9 \<or> n = 10 \<or> n = 11 \<or> n = 12 \<or> n = 13 \<or> n = 32 \<or> n = 160)"

definition isDigit :: "char \<Rightarrow> bool" where
  "isDigit c = (48 \<le> (of_char c :: nat) \<and> (of_char c :: nat) \<le> 57)"

text \<open>
  \<^verbatim>\<open>parseInt(s, 10)\<close>: leading white space is skipped, one sign is read, then the
  longest run of decimal digits; \<open>None\<close> is \<^verbatim>\<open>NaN\<close> (no digit at that place).
  The value is the mathematical integer; JavaScript rounds it to a double, which differs
  from 2 to the power 53 on.
\<close>

definition digitsValue :: "string \<Rightarrow> int" where
  "digitsValue ds = foldl (\<lambda>acc c. acc * 10 + (int (of_char c) - 48)) 0 ds"

definition parseInt :: "string \<Rightarrow> int option" where
  "parseInt s =
     (let t = dropWhile isWhiteSpace s;
          neg = (case t of [] \<Rightarrow> False | c # _ \<Rightarrow> c = CHR ''-'');
          u = (case t of [] \<Rightarrow> [] | c # r \<Rightarrow> if c = CHR ''-'' \<or> c = CHR ''+'' then r else t);
          ds = takeWhile isDigit u
      in if ds = [] then None
         else Some (if neg then - digitsValue ds else digitsValue ds))"

text \<open>
  The predicate of the final \<^verbatim>\<open>articles.filter\<close>. A comparison with
  \<^verbatim>\<open>NaN\<close> is false.
\<close>

definition passesFilter :: "search_params \<Rightarrow> article \<Rightarrow> bool" where
  "passesFilter params a =
     (case parseInt (a_year a) of
        None \<Rightarrow> True
      | Some y \<Rightarrow>
          (let yStart = (if truthy (p_yearStart params) then parseInt (the (p_yearStart params)) else Some 0);
               yEnd = (if truthy (p_yearEnd params) then parseInt (the (p_yearEnd params)) else Some 9999);
               yearMatch = ((case yStart of None \<Rightarrow> False | Some lo \<Rightarrow> lo \<le> y)
                            \<and> (case yEnd of None \<Rightarrow> False | Some hi \<Rightarrow> y \<le> hi));
               typeMatch = (case p_typeFilter params of
                              FilterAll \<Rightarrow> True
                            | FilterJournal \<Rightarrow> a_venueType a = Journal
                            | FilterConference \<Rightarrow> a_venueType a = Conference)
           in yearMatch \<and> typeMatch))"


section \<open>fetchWithRetry\<close>

text \<open>
  What one pass of the retry loop meets: the signal already aborted at the head of the
  pass, \<^verbatim>\<open>fetch\<close> rejecting with an AbortError, \<^verbatim>\<open>fetch\<close> rejecting
  with a transport error, or a response with an HTTP status. The network is a function
  from the pass index to what happens there.
\<close>

datatype attempt = SignalAborted | FetchAborted | FetchFailed | Response nat

datatype fetch_error =
    AbortError
  | NetworkError
  | HttpError nat
  | ConnectError

text \<open>
  The result together with what the caller cannot see in the return value: how many
  requests went out and which delays (milliseconds) were awaited, in order.
\<close>

record fetch_run =
  f_result :: "fetch_error + nat"
  f_requests :: nat
  f_delays :: "nat list"

definition response_ok :: "nat \<Rightarrow> bool" where
  "response_ok status = (200 \<le> status \<and> status \<le> 299)"

text \<open>
  The \<^verbatim>\<open>for (let i = 0; i < retries; i++)\<close> loop. The \<^verbatim>\<open>throw new Error\<close>
  for a status that is neither ok, 5xx nor 429 stands inside the \<^verbatim>\<open>try\<close>, so
  the \<^verbatim>\<open>catch\<close> below it receives it: it is stored in \<open>lastError\<close>, the delay
  is awaited and the loop goes on.
\<close>

function retryLoop ::
  "(nat \<Rightarrow> attempt) \<Rightarrow> nat \<Rightarrow> nat \<Rightarrow> fetch_error option \<Rightarrow> nat \<Rightarrow> nat list \<Rightarrow> fetch_run" where
  "retryLoop net retries i lastError reqs delays =
     (if i < retries then
        (case net i of
           SignalAborted \<Rightarrow> \<lparr> f_result = Inl AbortError, f_requests = reqs, f_delays = delays \<rparr>
         | FetchAborted \<Rightarrow> \<lparr> f_result = Inl AbortError, f_requests = reqs + 1, f_delays = delays \<rparr>
         | FetchFailed \<Rightarrow>
             retryLoop net retries (i + 1) (Some NetworkError) (reqs + 1) (delays @ [1000 * (i + 1)])
         | Response status \<Rightarrow>
             (if response_ok status then
                \<lparr> f_result = Inr status, f_requests = reqs + 1, f_delays = delays \<rparr>
              else if status \<ge> 500 \<or> status = 429 then
                retryLoop net retries (i + 1) lastError (reqs + 1) (delays @ [1000 * (i + 1)])
              else
                retryLoop net retries (i + 1) (Some (HttpError status)) (reqs + 1)
                  (delays @ [1000 * (i + 1)])))
      else \<lparr> f_result = Inl (case lastError of Some e \<Rightarrow> e | None \<Rightarrow> ConnectError),
             f_requests = reqs, f_delays = delays \<rparr>)"
  by pat_completeness auto
termination
  by (relation "measure (\<lambda>(net, retries, i, lastError, reqs, delays). retries - i)") auto

declare retryLoop.simps [simp del]

definition fetchWithRetry :: "(nat \<Rightarrow> attempt) \<Rightarrow> nat \<Rightarrow> fetch_run" where
  "fetchWithRetry net retries = retryLoop net retries 0 None 0 []"


section \<open>fetchDBLPData\<close>

subsection \<open>The query string\<close>

definition trim :: "string \<Rightarrow> string" where
  "trim s = rev (dropWhile isWhiteSpace (rev (dropWhile isWhiteSpace s)))"

definition notSlash :: "char \<Rightarrow> bool" where
  "notSlash c = (c \<noteq> CHR ''/'')"

text \<open>
  \<^verbatim>\<open>query.match(/db\/(journals\/[^/]+|conf\/[^/]+)/)\<close>: the leftmost match, the
  \<^verbatim>\<open>journals\<close> alternative tried first at each position; the result is group 1.
\<close>

fun streamKeyMatch :: "string \<Rightarrow> string option" where
  "streamKeyMatch [] = None"
| "streamKeyMatch (c # cs) =
     (if startsWith (c # cs) ''db/journals/'' \<and> takeWhile notSlash (drop 12 (c # cs)) \<noteq> []
        then Some (''journals/'' @ takeWhile notSlash (drop 12 (c # cs)))
      else if startsWith (c # cs) ''db/conf/'' \<and> takeWhile notSlash (drop 8 (c # cs)) \<noteq> []
        then Some (''conf/'' @ takeWhile notSlash (drop 8 (c # cs)))
      else streamKeyMatch cs)"

definition effectiveQuery :: "search_params \<Rightarrow> string" where
  "effectiveQuery params =
     (case p_mode params of
        KeywordMode \<Rightarrow> trim (p_query params)
      | UrlMode \<Rightarrow>
          (case streamKeyMatch (p_query params) of
             Some k \<Rightarrow> ''stream:'' @ k @ '':''
           | None \<Rightarrow>
               if CHR ''/'' \<in> set (p_query params) \<and> \<not> startsWith (p_query params) ''http''
                  \<and> \<not> startsWith (p_query params) ''stream:''
               then ''stream:'' @ p_query params @ '':''
               else trim (p_query params)))"

subsection \<open>The upstream service\<close>

text \<open>
  A page request is \<^verbatim>\<open>fetchWithRetry\<close> followed by \<^verbatim>\<open>res.json()\<close>. For the
  crawl what matters is how that pair ends: with an AbortError, with any other error
  (retries exhausted, a body that is not JSON), or with a parsed body. The abort signal
  is seen through the first of these: once it is aborted, a fetch in flight rejects with
  an AbortError. Of the body the
  crawl reads \<^verbatim>\<open>result.hits['@total']\<close> (a string when present) and
  \<^verbatim>\<open>result.hits.hit\<close> (\<open>None\<close> when it is not an array; a missing field reads
  as the empty array).
\<close>

record page_body =
  b_total :: "string option"
  b_hits :: "raw_hit list option"

datatype page_outcome = PageAborted | PageFailed | PageOk page_body

text \<open>The service as this crawl sees it: the answer to the request at each offset.\<close>

record upstream =
  first_page :: page_outcome
  later_page :: "nat \<Rightarrow> page_outcome"

definition BATCH_SIZE :: nat where
  "BATCH_SIZE = 100"

definition CONCURRENCY_LIMIT :: nat where
  "CONCURRENCY_LIMIT = 8"

definition hitsOf :: "page_body \<Rightarrow> raw_hit list" where
  "hitsOf body = (case b_hits body of None \<Rightarrow> [] | Some hs \<Rightarrow> hs)"

subsection \<open>The sliding-window pool\<close>

text \<open>
  The shared state of the pool: the offsets in flight (\<^verbatim>\<open>activePromises\<close>, in
  launch order), the accumulated \<^verbatim>\<open>allHits\<close>, and whether a promise of the set
  has rejected with an AbortError. Two fields record what an observer sees: the
  \<^verbatim>\<open>onProgress\<close> calls made so far, and the offsets whose hits were pushed, in
  the order of the pushes.
\<close>

record pool =
  active :: "nat list"
  allHits :: "raw_hit list"
  progress :: "(nat \<times> nat) list"
  pushed :: "nat list"
  rejected :: bool

text \<open>
  One \<^verbatim>\<open>fetchBatch(offset)\<close> promise settles. A failed batch is caught, logged
  and leaves the set; an AbortError is rethrown, so the promise rejects and stays in
  the set; a fetched batch pushes its hits onto \<^verbatim>\<open>allHits\<close>, reports progress
  and leaves the set.
\<close>

definition settle :: "upstream \<Rightarrow> nat \<Rightarrow> nat \<Rightarrow> pool \<Rightarrow> pool" where
  "settle up targetCount offset st =
     (case later_page up offset of
        PageAborted \<Rightarrow> st\<lparr> rejected := True \<rparr>
      | PageFailed \<Rightarrow> st\<lparr> active := remove1 offset (active st) \<rparr>
      | PageOk body \<Rightarrow>
          st\<lparr> active := remove1 offset (active st),
              allHits := allHits st @ hitsOf body,
              progress := progress st
                 @ [(min (length (allHits st @ hitsOf body)) targetCount, targetCount)],
              pushed := pushed st @ [offset] \<rparr>)"

text \<open>
  Which of the fetches in flight settles next is not decided by the program. The
  schedule decides it: its head, reduced modulo the number of fetches in flight, is the
  position of the one that settles; an exhausted schedule lets the oldest settle. Every
  completion order is the result of some schedule.
\<close>

fun pick :: "nat list \<Rightarrow> nat list \<Rightarrow> nat" where
  "pick sched [] = 0"
| "pick [] (a # act) = a"
| "pick (k # sched) (a # act) = (a # act) ! (k mod length (a # act))"

lemma pick_in_active: "act \<noteq> [] \<Longrightarrow> pick sched act \<in> set act"
proof (cases act)
  case Nil
  assume "act \<noteq> []"
  with Nil show ?thesis by simp
next
  case (Cons a rest)
  show ?thesis
  proof (cases sched)
    case Nil
    with Cons show ?thesis by simp
  next
    case (Cons k ks)
    have "k mod length (a # rest) < length (a # rest)"
      by simp
    then have "(a # rest) ! (k mod length (a # rest)) \<in> set (a # rest)"
      by (rule nth_mem)
    then show ?thesis
      using \<open>act = a # rest\<close> Cons by (simp only: pick.simps)
  qed
qed

lemma settle_shrinks:
  "active st \<noteq> [] \<Longrightarrow> \<not> rejected (settle up tc (pick sched (active st)) st) \<Longrightarrow>
   length (active (settle up tc (pick sched (active st)) st)) < length (active st)"
proof -
  assume ne: "active st \<noteq> []"
  have mem: "pick sched (active st) \<in> set (active st)"
    using ne by (rule pick_in_active)
  have pos: "0 < length (active st)"
    using ne by simp
  have rm: "length (remove1 (pick sched (active st)) (active st)) < length (active st)"
    using mem pos by (simp add: length_remove1)
  assume "\<not> rejected (settle up tc (pick sched (active st)) st)"
  then show ?thesis
    using rm by (cases "later_page up (pick sched (active st))") (simp_all add: settle_def)
qed

text \<open>\<^verbatim>\<open>await Promise.all(activePromises)\<close>.\<close>

function awaitAll :: "upstream \<Rightarrow> nat \<Rightarrow> nat list \<Rightarrow> pool \<Rightarrow> pool" where
  "awaitAll up targetCount sched st =
     (if rejected st \<or> active st = [] then st
      else awaitAll up targetCount (tl sched) (settle up targetCount (pick sched (active st)) st))"
  by pat_completeness auto
termination
  by (relation "measure (\<lambda>(up, tc, sched, st). if rejected st then 0 else Suc (length (active st)))")
     (simp_all add: settle_shrinks)

declare awaitAll.simps [simp del]

text \<open>
  The \<^verbatim>\<open>for (const offset of offsetsToFetch)\<close> loop: the batch is started and
  joins the set; with \<^verbatim>\<open>CONCURRENCY_LIMIT\<close> fetches in flight the loop awaits
  \<^verbatim>\<open>Promise.race\<close>, which one settling fetch ends. A rejection ends the loop
  with the AbortError, as do the \<^verbatim>\<open>signal?.aborted\<close> tests of the loop and
  after it.
\<close>

fun launchAll :: "upstream \<Rightarrow> nat \<Rightarrow> nat list \<Rightarrow> nat list \<Rightarrow> pool \<Rightarrow> pool" where
  "launchAll up targetCount sched [] st = awaitAll up targetCount sched st"
| "launchAll up targetCount sched (offset # rest) st =
     (if rejected st then st
      else if length (active st @ [offset]) \<ge> CONCURRENCY_LIMIT then
        launchAll up targetCount (tl sched) rest
          (settle up targetCount (pick sched (active st @ [offset]))
             (st\<lparr> active := active st @ [offset] \<rparr>))
      else launchAll up targetCount sched rest (st\<lparr> active := active st @ [offset] \<rparr>))"

text \<open>\<^verbatim>\<open>for (let f = BATCH_SIZE; f < targetCount; f += BATCH_SIZE)\<close>.\<close>

function offsetsFrom :: "nat \<Rightarrow> nat \<Rightarrow> nat list" where
  "offsetsFrom f targetCount =
     (if f < targetCount then f # offsetsFrom (f + BATCH_SIZE) targetCount else [])"
  by pat_completeness auto
termination
  by (relation "measure (\<lambda>(f, targetCount). targetCount - f)") (auto simp: BATCH_SIZE_def)

declare offsetsFrom.simps [simp del]

subsection \<open>The crawl\<close>

datatype crawl_error = InvalidQuery | Cancelled | ServiceError

record crawl =
  callbacks :: "(nat \<times> nat) list"
  outcome :: "crawl_error + article list"

text \<open>Steps 4 and 5: slice to \<^verbatim>\<open>maxResults\<close>, map to the internal model, filter.\<close>

definition toArticles :: "(string \<Rightarrow> string) \<Rightarrow> (nat \<Rightarrow> string) \<Rightarrow> raw_hit list \<Rightarrow> article list" where
  "toArticles txt rnd raw = map (\<lambda>(i, hit). toArticle txt (rnd i) hit) (enumerate 0 raw)"

definition assemble ::
  "(string \<Rightarrow> string) \<Rightarrow> (nat \<Rightarrow> string) \<Rightarrow> search_params \<Rightarrow> nat \<Rightarrow> raw_hit list \<Rightarrow> article list" where
  "assemble txt rnd params maxResults hits =
     filter (passesFilter params) (toArticles txt rnd (take maxResults hits))"

text \<open>
  \<open>totalMatches\<close> is a JavaScript number: \<open>None\<close> is \<^verbatim>\<open>NaN\<close>, which
  \<^verbatim>\<open>parseInt\<close> gives for a total that is no number. \<^verbatim>\<open>Math.min\<close> of
  \<^verbatim>\<open>NaN\<close> is \<^verbatim>\<open>NaN\<close>, and every comparison with it is false.
\<close>

definition totalMatchesOf :: "page_body \<Rightarrow> int option" where
  "totalMatchesOf body = (if truthy (b_total body) then parseInt (the (b_total body)) else Some 0)"

definition effectiveTotal :: "int option \<Rightarrow> nat \<Rightarrow> nat" where
  "effectiveTotal totalMatches maxResults =
     (case totalMatches of
        None \<Rightarrow> maxResults
      | Some t \<Rightarrow> if t > 0 then min (nat t) maxResults else maxResults)"

definition targetCountOf :: "int option \<Rightarrow> nat \<Rightarrow> int option" where
  "targetCountOf totalMatches maxResults =
     (case totalMatches of None \<Rightarrow> None | Some t \<Rightarrow> Some (min t (int maxResults)))"

definition needsMore :: "nat \<Rightarrow> int option \<Rightarrow> bool" where
  "needsMore n targetCount = (case targetCount of None \<Rightarrow> False | Some tc \<Rightarrow> int n < tc)"

text \<open>
  The state of the pool when the crawl is over: after the first page alone when it
  covers the target, after the pool otherwise.
\<close>

definition crawlPages :: "upstream \<Rightarrow> nat \<Rightarrow> nat list \<Rightarrow> page_body \<Rightarrow> pool" where
  "crawlPages up maxResults sched body =
     (let totalMatches = totalMatchesOf body;
          st0 = \<lparr> active = [], allHits = hitsOf body,
                  progress = [(length (hitsOf body), effectiveTotal totalMatches maxResults)],
                  pushed = [], rejected = False \<rparr>;
          targetCount = targetCountOf totalMatches maxResults
      in if needsMore (length (hitsOf body)) targetCount
         then launchAll up (nat (the targetCount)) sched
                (offsetsFrom BATCH_SIZE (nat (the targetCount))) st0
         else st0)"

text \<open>\<^verbatim>\<open>params.maxResults || 50\<close>.\<close>

definition maxResultsOf :: "search_params \<Rightarrow> nat" where
  "maxResultsOf params = (if p_maxResults params = 0 then 50 else p_maxResults params)"

text \<open>
  \<^verbatim>\<open>fetchDBLPData(params, onProgress, signal)\<close>. \<open>txt\<close> and \<open>rnd\<close> are the DOM
  text extraction and the random strings, \<open>sched\<close> the completion schedule. The result
  holds the \<^verbatim>\<open>onProgress\<close> calls next to what the promise settles to.
\<close>

definition fetchDBLPData ::
  "upstream \<Rightarrow> (string \<Rightarrow> string) \<Rightarrow> (nat \<Rightarrow> string) \<Rightarrow> nat list \<Rightarrow> search_params \<Rightarrow> crawl" where
  "fetchDBLPData up txt rnd sched params =
     (if effectiveQuery params = [] then \<lparr> callbacks = [], outcome = Inl InvalidQuery \<rparr>
      else
        (let maxResults = maxResultsOf params
         in case first_page up of
              PageAborted \<Rightarrow> \<lparr> callbacks = [], outcome = Inl Cancelled \<rparr>
            | PageFailed \<Rightarrow> \<lparr> callbacks = [], outcome = Inl ServiceError \<rparr>
            | PageOk body \<Rightarrow>
                (let st = crawlPages up maxResults sched body
                 in \<lparr> callbacks = progress st,
                      outcome = (if rejected st then Inl Cancelled
                                 else Inr (assemble txt rnd params maxResults (allHits st))) \<rparr>)))"


section \<open>Analytics\<close>

subsection \<open>tokenize\<close>

definition STOP_WORDS :: "string list" where
  "STOP_WORDS =
     [''the'', ''a'', ''an'', ''and'', ''or'', ''but'', ''in'', ''on'', ''at'', ''to'', ''for'', ''of'', ''with'', ''by'',
      ''from'', ''up'', ''about'', ''into'', ''over'', ''after'', ''is'', ''are'', ''was'', ''were'', ''be'', ''been'',
      ''being'', ''have'', ''has'', ''had'', ''do'', ''does'', ''did'', ''will'', ''would'', ''should'', ''can'', ''could'',
      ''this'', ''that'', ''these'', ''those'', ''it'', ''its'', ''they'', ''their'', ''we'', ''our'', ''which'', ''who'',
      ''what'', ''when'', ''where'', ''how'', ''why'', ''based'', ''using'', ''via'', ''through'', ''approach'', ''method'',
      ''system'', ''analysis'', ''survey'', ''review'', ''study'', ''towards'', ''new'', ''novel'', ''application'',
      ''performance'', ''evaluation'', ''data'', ''model'', ''algorithm'', ''network'', ''networks'', ''learning'',
      ''problem'', ''problems'', ''efficient'', ''multi'', ''large'', ''scale'', ''real'', ''time'', ''under'', ''during'',
      ''between'', ''among'', ''proposed'', ''framework'', ''architecture'']"

text \<open>
  \<^verbatim>\<open>toLowerCase\<close> on 8-bit characters: of the characters that survive the
  punctuation filter only \<^verbatim>\<open>A-Z\<close> change.
\<close>

definition toLowerChar :: "char \<Rightarrow> char" where
  "toLowerChar c =
     (if 65 \<le> (of_char c :: nat) \<and> (of_char c :: nat) \<le> 90 then char_of ((of_char c :: nat) + 32) else c)"

text \<open>The class \<^verbatim>\<open>\w\<close>: letters, digits and the underscore.\<close>

definition isWordChar :: "char \<Rightarrow> bool" where
  "isWordChar c = (let n = (of_char c :: nat) in
     (48 \<le> n \<and> n \<le> 57) \<or> (65 \<le> n \<and> n \<le> 90) \<or> n = 95 \<or> (97 \<le> n \<and> n \<le> 122))"

text \<open>\<^verbatim>\<open>.replace(/[^\w\s-]/g, '')\<close> keeps exactly these characters.\<close>

definition keptChar :: "char \<Rightarrow> bool" where
  "keptChar c = (isWordChar c \<or> isWhiteSpace c \<or> c = CHR ''-'')"

text \<open>
  \<^verbatim>\<open>.split(/\s+/)\<close>: a run of white space separates two pieces; white space at
  either end of the text leaves an empty piece there. \<open>cur\<close> is the piece being read
  (reversed), \<open>sep\<close> tells that the last character was white space.
\<close>

fun splitWs :: "string \<Rightarrow> bool \<Rightarrow> string \<Rightarrow> string list" where
  "splitWs cur sep [] = [rev cur]"
| "splitWs cur sep (c # cs) =
     (if isWhiteSpace c then (if sep then splitWs cur True cs else rev cur # splitWs [] True cs)
      else splitWs (c # cur) False cs)"

definition allDigits :: "string \<Rightarrow> bool" where
  "allDigits w = (w \<noteq> [] \<and> list_all isDigit w)"

definition tokenize :: "string \<Rightarrow> string list" where
  "tokenize text =
     filter (\<lambda>w. length w > 2 \<and> w \<notin> set STOP_WORDS \<and> \<not> allDigits w)
       (splitWs [] False (filter keptChar (map toLowerChar text)))"

subsection \<open>generateTrends\<close>

text \<open>
  A \<^verbatim>\<open>KeywordTrend\<close> is an object \<^verbatim>\<open>{ year, [keyword]: number | string }\<close>:
  one name space holds the \<^verbatim>\<open>year\<close> property and the keyword properties. It is
  a map from property names to values; \<^verbatim>\<open>entry[kw] = count\<close> updates it.
  A property name with an inherited setter (\<^verbatim>\<open>__proto__\<close>), for which the
  assignment of a number stores nothing, is outside this model.
\<close>

datatype trend_value = Str string | Num nat

type_synonym keyword_trend = "string \<rightharpoonup> trend_value"

text \<open>\<^verbatim>\<open>Array.from(new Set(xs))\<close>: the first occurrence of each value, in order.\<close>

fun uniq :: "'a list \<Rightarrow> 'a list" where
  "uniq [] = []"
| "uniq (x # xs) = x # filter (\<lambda>y. y \<noteq> x) (uniq xs)"

text \<open>
  \<^verbatim>\<open>.sort()\<close> without a comparator orders strings by their code units, which is
  the lexicographic order of character lists over the order of character codes.
\<close>

definition sortedYears :: "article list \<Rightarrow> string list" where
  "sortedYears articles = sort (uniq (map a_year articles))"

definition countTerm :: "article list \<Rightarrow> string \<Rightarrow> nat" where
  "countTerm yearArticles kw = length (filter (\<lambda>a. kw \<in> set (tokenize (a_title a))) yearArticles)"

definition trendEntry :: "article list \<Rightarrow> string list \<Rightarrow> string \<Rightarrow> keyword_trend" where
  "trendEntry articles topKeywords year =
     (let yearArticles = filter (\<lambda>a. a_year a = year) articles
      in fold (\<lambda>kw entry. entry(kw \<mapsto> Num (countTerm yearArticles kw))) topKeywords
           [''year'' \<mapsto> Str year])"

definition generateTrends :: "article list \<Rightarrow> string list \<Rightarrow> keyword_trend list" where
  "generateTrends articles topKeywords = map (trendEntry articles topKeywords) (sortedYears articles)"

subsection \<open>findSimilarArticles\<close>

text \<open>
  The score is a JavaScript number; it is modelled as a real number, with the exact
  square root, so two scores that differ only by the rounding of doubles are equal here.
  \<^verbatim>\<open>x || 1\<close> replaces a zero denominator by 1.
\<close>

record similarity_result =
  r_article :: article
  r_score :: real
  r_sharedTerms :: "string list"

definition similarityOf :: "string list \<Rightarrow> article \<Rightarrow> similarity_result" where
  "similarityOf targetTokens article =
     (let articleTokens = tokenize (a_title article);
          intersection = filter (\<lambda>t. t \<in> set targetTokens) articleTokens;
          denom = sqrt (real (length (uniq targetTokens) * length articleTokens))
      in \<lparr> r_article = article,
           r_score = real (length intersection) / (if denom = 0 then 1 else denom),
           r_sharedTerms = intersection \<rparr>)"

text \<open>
  \<^verbatim>\<open>.sort((a, b) => b.score - a.score)\<close> is a stable sort by descending score.
\<close>

definition findSimilarArticles :: "article \<Rightarrow> article list \<Rightarrow> nat \<Rightarrow> similarity_result list" where
  "findSimilarArticles target allArticles limit =
     take limit
       (sort_key (\<lambda>r. - r_score r)
          (filter (\<lambda>r. r_score r > 0.1)
             (map (similarityOf (tokenize (a_title target)))
                (filter (\<lambda>a. a_id a \<noteq> a_id target) allArticles))))"


section \<open>Notions used to state the properties of a crawl\<close>

text \<open>What a later page contributes to \<^verbatim>\<open>allHits\<close>, and whether its fetch succeeds.\<close>

definition pageHits :: "upstream \<Rightarrow> nat \<Rightarrow> raw_hit list" where
  "pageHits up offset = (case later_page up offset of PageOk body \<Rightarrow> hitsOf body | _ \<Rightarrow> [])"

definition pageOk :: "upstream \<Rightarrow> nat \<Rightarrow> bool" where
  "pageOk up offset = (case later_page up offset of PageOk body \<Rightarrow> True | _ \<Rightarrow> False)"

text \<open>
  The pool at the end of a crawl whose first page arrived, the offsets it requests
  after the first page, and the order in which their fetches completed with a page.
\<close>

definition finalPool :: "upstream \<Rightarrow> nat list \<Rightarrow> search_params \<Rightarrow> pool" where
  "finalPool up sched params =
     (case first_page up of
        PageOk body \<Rightarrow> crawlPages up (maxResultsOf params) sched body
      | _ \<Rightarrow> \<lparr> active = [], allHits = [], progress = [], pushed = [], rejected = False \<rparr>)"

definition firstHits :: "upstream \<Rightarrow> raw_hit list" where
  "firstHits up = (case first_page up of PageOk body \<Rightarrow> hitsOf body | _ \<Rightarrow> [])"

definition requestedOffsets :: "upstream \<Rightarrow> search_params \<Rightarrow> nat list" where
  "requestedOffsets up params =
     (case first_page up of
        PageOk body \<Rightarrow>
          (let targetCount = targetCountOf (totalMatchesOf body) (maxResultsOf params)
           in if needsMore (length (hitsOf body)) targetCount
              then offsetsFrom BATCH_SIZE (nat (the targetCount)) else [])
      | _ \<Rightarrow> [])"

definition completionOrder :: "upstream \<Rightarrow> nat list \<Rightarrow> search_params \<Rightarrow> nat list" where
  "completionOrder up sched params = pushed (finalPool up sched params)"

text \<open>
  The hits a crawl has received: those of the first page, then those of the later pages
  in the order in which their fetches completed.
\<close>

definition receivedHits :: "upstream \<Rightarrow> nat list \<Rightarrow> search_params \<Rightarrow> raw_hit list" where
  "receivedHits up sched params =
     firstHits up @ concat (map (pageHits up) (completionOrder up sched params))"

text \<open>
  What the progress reports satisfy while the pool runs: they are non-decreasing in the
  fetched count, none exceeds the number of accumulated hits or the target of the pool,
  and all but the first stay within the target they report.
\<close>

definition progressOk :: "nat \<Rightarrow> pool \<Rightarrow> bool" where
  "progressOk tc st =
     (progress st \<noteq> []
      \<and> sorted (map fst (progress st))
      \<and> list_all (\<lambda>p. fst p \<le> length (allHits st) \<and> fst p \<le> tc) (progress st)
      \<and> list_all (\<lambda>p. fst p \<le> snd p) (tl (progress st)))"


section \<open>A sample service\<close>

text \<open>
  A service that holds \<open>tot\<close> conference papers numbered from 0 and answers a request
  at an offset with the next \<^verbatim>\<open>BATCH_SIZE\<close> of them and the total.
\<close>

function showNat :: "nat \<Rightarrow> string" where
  "showNat n = (if n < 10 then [char_of (48 + n)] else showNat (n div 10) @ [char_of (48 + n mod 10)])"
  by pat_completeness auto
termination
  by (relation "measure id") auto

declare showNat.simps [simp del]

definition sampleHit :: "nat \<Rightarrow> raw_hit" where
  "sampleHit n =
     \<lparr> h_id = Some (showNat n),
       h_info = Some (empty_info\<lparr> i_type := Some ''Inproceedings'',
                                  i_key := Some (''conf/icse/'' @ showNat n),
                                  i_title := Some ''Graph Databases'',
                                  i_year := Some ''2020'' \<rparr>) \<rparr>"

definition samplePage :: "nat \<Rightarrow> nat \<Rightarrow> page_outcome" where
  "samplePage tot offset =
     PageOk \<lparr> b_total = Some (showNat tot),
              b_hits = Some (map sampleHit [offset ..< min tot (offset + BATCH_SIZE)]) \<rparr>"

definition sampleService :: "nat \<Rightarrow> upstream" where
  "sampleService tot = \<lparr> first_page = samplePage tot 0, later_page = samplePage tot \<rparr>"

definition sampleParams :: "type_filter \<Rightarrow> nat \<Rightarrow> search_params" where
  "sampleParams tf n = \<lparr> p_mode = KeywordMode, p_query = ''graph'', p_yearStart = None,
       p_yearEnd = None, p_typeFilter = tf, p_maxResults = n \<rparr>"

definition sampleRandom :: "nat \<Rightarrow> string" where
  "sampleRandom i = ''0.'' @ showNat i"

text \<open>
  The same service when one paper enters its list ahead of the window between two
  requests: a later page starts one place earlier, so the last hit of the page before
  it comes again.
\<close>

definition overlapService :: upstream where
  "overlapService = \<lparr> first_page = samplePage 200 0,
                       later_page = (\<lambda>offset. samplePage 200 (offset - 1)) \<rparr>"

text \<open>A schedule: of the fetches in flight, the second settles first.\<close>

definition secondFirst :: "nat list" where
  "secondFirst = [1]"

text \<open>A conference paper whose year field is no number.\<close>

definition undatedHit :: raw_hit where
  "undatedHit =
     \<lparr> h_id = Some ''4711'',
       h_info = Some (empty_info\<lparr> i_type := Some ''Inproceedings'',
                                  i_key := Some ''conf/icse/Doe'',
                                  i_title := Some ''Graph Databases'',
                                  i_year := Some ''to appear'' \<rparr>) \<rparr>"

definition undatedService :: upstream where
  "undatedService = \<lparr> first_page = PageOk \<lparr> b_total = Some ''1'', b_hits = Some [undatedHit] \<rparr>,
                       later_page = (\<lambda>offset. PageOk \<lparr> b_total = Some ''1'', b_hits = Some [] \<rparr>) \<rparr>"

text \<open>A first page of 100 hits whose body carries no total.\<close>

definition untotalledPage :: page_outcome where
  "untotalledPage = PageOk \<lparr> b_total = None, b_hits = Some (map sampleHit [0..<100]) \<rparr>"

text \<open>The article that normalisation makes of \<open>sampleHit n\<close>.\<close>

definition sampleArticle :: "(string \<Rightarrow> string) \<Rightarrow> nat \<Rightarrow> article" where
  "sampleArticle txt n =
     \<lparr> a_id = showNat n, a_title = txt ''Graph Databases'', a_authors = [''Unknown Author''],
       a_venue = [], a_venueType = Conference, a_year = ''2020'', a_type = ''Inproceedings'',
       a_doi = None, a_url = None, a_key = Some (''conf/icse/'' @ showNat n),
       a_selected = False \<rparr>"

text \<open>An article of the analytics examples: only identifier, title and year matter there.\<close>

definition paper :: "string \<Rightarrow> string \<Rightarrow> string \<Rightarrow> article" where
  "paper ident year title =
     \<lparr> a_id = ident, a_title = title, a_authors = [''Unknown Author''], a_venue = [],
       a_venueType = Unknown, a_year = year, a_type = ''Unknown'', a_doi = None, a_url = None,
       a_key = None, a_selected = False \<rparr>"


section \<open>The pool: what it accumulates, and in which order\<close>

text \<open>
  \<^verbatim>\<open>allHits\<close> is always the first page followed by the fetched pages in the
  order of their pushes.
\<close>

lemma settle_allHits:
  "allHits st = base @ concat (map (pageHits up) (pushed st)) \<Longrightarrow>
   allHits (settle up tc f st) = base @ concat (map (pageHits up) (pushed (settle up tc f st)))"
  by (cases "later_page up f") (simp_all add: settle_def pageHits_def)

lemma awaitAll_allHits:
  "allHits st = base @ concat (map (pageHits up) (pushed st)) \<Longrightarrow>
   allHits (awaitAll up tc sched st) = base @ concat (map (pageHits up) (pushed (awaitAll up tc sched st)))"
proof (induction up tc sched st rule: awaitAll.induct)
  case (1 up tc sched st)
  show ?case
  proof (cases "rejected st \<or> active st = []")
    case True
    then show ?thesis using "1.prems" by (subst (1 2) awaitAll.simps) simp
  next
    case False
    have "allHits (settle up tc (pick sched (active st)) st)
          = base @ concat (map (pageHits up) (pushed (settle up tc (pick sched (active st)) st)))"
      using "1.prems" by (rule settle_allHits)
    with False "1.IH" show ?thesis by (subst (1 2) awaitAll.simps) simp
  qed
qed

lemma launchAll_allHits:
  "allHits st = base @ concat (map (pageHits up) (pushed st)) \<Longrightarrow>
   allHits (launchAll up tc sched offs st) = base @ concat (map (pageHits up) (pushed (launchAll up tc sched offs st)))"
proof (induction offs arbitrary: sched st)
  case Nil
  then show ?case by (simp add: awaitAll_allHits)
next
  case (Cons f rest)
  let ?st1 = "st\<lparr> active := active st @ [f] \<rparr>"
  have a: "allHits ?st1 = base @ concat (map (pageHits up) (pushed ?st1))"
    using Cons.prems by simp
  have b: "allHits (settle up tc (pick sched (active st @ [f])) ?st1)
        = base @ concat (map (pageHits up) (pushed (settle up tc (pick sched (active st @ [f])) ?st1)))"
    using a by (rule settle_allHits)
  show ?case
    using Cons.prems Cons.IH [OF a] Cons.IH [OF b] by simp
qed

lemma finalPool_allHits:
  "allHits (finalPool up sched params)
     = firstHits up @ concat (map (pageHits up) (completionOrder up sched params))"
proof (cases "first_page up")
  case (PageOk body)
  have "allHits (crawlPages up m sched body)
        = hitsOf body @ concat (map (pageHits up) (pushed (crawlPages up m sched body)))" for m
    by (simp add: crawlPages_def Let_def launchAll_allHits)
  with PageOk show ?thesis
    by (simp add: finalPool_def firstHits_def completionOrder_def)
qed (simp_all add: finalPool_def firstHits_def completionOrder_def)

text \<open>
  Unless a fetch was aborted, the pages pushed are the requested offsets whose fetch
  succeeded, each once.
\<close>

lemma mset_filter_remove1:
  "x \<in> set xs \<Longrightarrow> mset (filter P (remove1 x xs)) + (if P x then {#x#} else {#}) = mset (filter P xs)"
  by (induction xs) auto

lemma settle_pushed:
  assumes "f \<in> set (active st)" "\<not> rejected (settle up tc f st)"
  shows "mset (pushed (settle up tc f st)) + mset (filter (pageOk up) (active (settle up tc f st)))
         = mset (pushed st) + mset (filter (pageOk up) (active st))"
proof (cases "later_page up f")
  case PageAborted
  with assms show ?thesis by (simp add: settle_def)
next
  case PageFailed
  then show ?thesis
    using mset_filter_remove1 [OF assms(1), of "pageOk up"] by (simp add: settle_def pageOk_def)
next
  case (PageOk body)
  then show ?thesis
    using mset_filter_remove1 [OF assms(1), of "pageOk up"] by (simp add: settle_def pageOk_def)
qed

lemma awaitAll_rejected: "rejected st \<Longrightarrow> awaitAll up tc sched st = st"
  by (subst awaitAll.simps) simp

lemma launchAll_rejected: "rejected st \<Longrightarrow> launchAll up tc sched offs st = st"
  by (cases offs) (simp_all add: awaitAll_rejected)

lemma awaitAll_pushed:
  "\<not> rejected (awaitAll up tc sched st) \<Longrightarrow>
   mset (pushed (awaitAll up tc sched st)) = mset (pushed st) + mset (filter (pageOk up) (active st))"
proof (induction up tc sched st rule: awaitAll.induct)
  case (1 up tc sched st)
  show ?case
  proof (cases "rejected st \<or> active st = []")
    case True
    then show ?thesis using "1.prems" by (subst (asm) awaitAll.simps, subst awaitAll.simps) auto
  next
    case False
    let ?st' = "settle up tc (pick sched (active st)) st"
    have eq: "awaitAll up tc sched st = awaitAll up tc (tl sched) ?st'"
      using False by (subst awaitAll.simps) simp
    have nr: "\<not> rejected (awaitAll up tc (tl sched) ?st')"
      using "1.prems" eq by simp
    have nr': "\<not> rejected ?st'"
      using nr awaitAll_rejected [of ?st' up tc "tl sched"] by auto
    have mem: "pick sched (active st) \<in> set (active st)"
      using False by (simp add: pick_in_active)
    show ?thesis
      using "1.IH" [OF False nr] settle_pushed [OF mem nr'] eq by simp
  qed
qed

lemma launchAll_pushed:
  "\<not> rejected (launchAll up tc sched offs st) \<Longrightarrow>
   mset (pushed (launchAll up tc sched offs st))
     = mset (pushed st) + mset (filter (pageOk up) (active st)) + mset (filter (pageOk up) offs)"
proof (induction offs arbitrary: sched st)
  case Nil
  then show ?case by (simp add: awaitAll_pushed)
next
  case (Cons f rest)
  let ?st1 = "st\<lparr> active := active st @ [f] \<rparr>"
  let ?st2 = "settle up tc (pick sched (active st @ [f])) ?st1"
  have nrst: "\<not> rejected st"
    using Cons.prems launchAll_rejected [of st up tc sched "f # rest"] by auto
  show ?case
  proof (cases "CONCURRENCY_LIMIT \<le> length (active st @ [f])")
    case True
    have eq: "launchAll up tc sched (f # rest) st = launchAll up tc (tl sched) rest ?st2"
      using nrst True by simp
    have nr: "\<not> rejected (launchAll up tc (tl sched) rest ?st2)"
      using Cons.prems eq by simp
    have nr2: "\<not> rejected ?st2"
      using nr launchAll_rejected [of ?st2 up tc "tl sched" rest] by auto
    have mem: "pick sched (active ?st1) \<in> set (active ?st1)"
      by (rule pick_in_active) simp
    have "mset (pushed ?st2) + mset (filter (pageOk up) (active ?st2))
          = mset (pushed ?st1) + mset (filter (pageOk up) (active ?st1))"
      using settle_pushed [of "pick sched (active ?st1)" ?st1 up tc] mem nr2 by simp
    then show ?thesis
      using Cons.IH [OF nr] eq by (simp add: ac_simps)
  next
    case False
    have eq: "launchAll up tc sched (f # rest) st = launchAll up tc sched rest ?st1"
      using nrst False by simp
    have nr: "\<not> rejected (launchAll up tc sched rest ?st1)"
      using Cons.prems eq by simp
    show ?thesis
      using Cons.IH [OF nr] eq by (simp add: ac_simps)
  qed
qed

lemma completionOrder_permutes:
  "\<not> rejected (finalPool up sched params) \<Longrightarrow>
   mset (completionOrder up sched params) = mset (filter (pageOk up) (requestedOffsets up params))"
proof (cases "first_page up")
  case (PageOk body)
  assume nr: "\<not> rejected (finalPool up sched params)"
  show ?thesis
  proof (cases "needsMore (length (hitsOf body)) (targetCountOf (totalMatchesOf body) (maxResultsOf params))")
    case True
    with PageOk nr show ?thesis
      by (simp add: finalPool_def completionOrder_def requestedOffsets_def crawlPages_def Let_def
          launchAll_pushed)
  next
    case False
    with PageOk show ?thesis
      by (simp add: finalPool_def completionOrder_def requestedOffsets_def crawlPages_def Let_def)
  qed
qed (simp_all add: finalPool_def completionOrder_def requestedOffsets_def)

lemma fetchDBLPData_Inr:
  assumes "outcome (fetchDBLPData up txt rnd sched params) = Inr arts"
  shows "arts = assemble txt rnd params (maxResultsOf params) (allHits (finalPool up sched params))
         \<and> \<not> rejected (finalPool up sched params)"
  using assms
  by (cases "first_page up")
     (auto simp: fetchDBLPData_def finalPool_def maxResultsOf_def Let_def split: if_splits)



text \<open>
  When the oldest fetch in flight always settles first, the pages are pushed in the
  order of their offsets.
\<close>

lemma pick_exhausted: "pick [] (a # act) = a"
  by simp

lemma settle_oldest:
  assumes "active st = a # rest" "\<not> rejected (settle up tc a st)"
  shows "pushed (settle up tc a st) @ filter (pageOk up) (active (settle up tc a st))
         = pushed st @ filter (pageOk up) (active st)"
  using assms by (cases "later_page up a") (simp_all add: settle_def pageOk_def)

lemma awaitAll_oldest_first:
  "sched = [] \<Longrightarrow> \<not> rejected (awaitAll up tc sched st) \<Longrightarrow>
   pushed (awaitAll up tc sched st) = pushed st @ filter (pageOk up) (active st)"
proof (induction up tc sched st rule: awaitAll.induct)
  case (1 up tc sched st)
  show ?case
  proof (cases "rejected st \<or> active st = []")
    case True
    then show ?thesis using "1.prems" by (subst (asm) awaitAll.simps, subst awaitAll.simps) auto
  next
    case False
    then obtain a rest where act: "active st = a # rest"
      by (cases "active st") auto
    let ?st' = "settle up tc a st"
    have pk: "pick sched (active st) = a"
      using act "1.prems"(1) by simp
    have eq: "awaitAll up tc sched st = awaitAll up tc (tl sched) ?st'"
      using False pk by (subst awaitAll.simps) simp
    have nr: "\<not> rejected (awaitAll up tc (tl sched) ?st')"
      using "1.prems" eq by simp
    have nr': "\<not> rejected ?st'"
      using nr awaitAll_rejected [of ?st' up tc "tl sched"] by auto
    have "pushed (awaitAll up tc (tl sched) ?st') = pushed ?st' @ filter (pageOk up) (active ?st')"
      using "1.IH" [OF False] "1.prems"(1) nr pk by simp
    then show ?thesis
      using settle_oldest [OF act nr'] eq by simp
  qed
qed

lemma launchAll_oldest_first:
  "\<not> rejected (launchAll up tc [] offs st) \<Longrightarrow>
   pushed (launchAll up tc [] offs st) = pushed st @ filter (pageOk up) (active st @ offs)"
proof (induction offs arbitrary: st)
  case Nil
  then show ?case by (simp add: awaitAll_oldest_first)
next
  case (Cons f rest)
  let ?st1 = "st\<lparr> active := active st @ [f] \<rparr>"
  obtain a more where act: "active ?st1 = a # more"
    by (cases "active st") auto
  let ?st2 = "settle up tc a ?st1"
  have pk: "pick [] (active st @ [f]) = a"
    using act by simp
  have nrst: "\<not> rejected st"
    using Cons.prems launchAll_rejected [of st up tc "[]" "f # rest"] by auto
  show ?case
  proof (cases "CONCURRENCY_LIMIT \<le> length (active st @ [f])")
    case True
    have eq: "launchAll up tc [] (f # rest) st = launchAll up tc [] rest ?st2"
      using nrst True pk by simp
    have nr: "\<not> rejected (launchAll up tc [] rest ?st2)"
      using Cons.prems eq by simp
    have nr2: "\<not> rejected ?st2"
      using nr launchAll_rejected [of ?st2 up tc "[]" rest] by auto
    have "pushed ?st2 @ filter (pageOk up) (active ?st2)
          = pushed ?st1 @ filter (pageOk up) (active ?st1)"
      using act nr2 by (rule settle_oldest)
    then show ?thesis
      using Cons.IH [OF nr] eq by simp
  next
    case False
    have eq: "launchAll up tc [] (f # rest) st = launchAll up tc [] rest ?st1"
      using nrst False by simp
    have nr: "\<not> rejected (launchAll up tc [] rest ?st1)"
      using Cons.prems eq by simp
    show ?thesis
      using Cons.IH [OF nr] eq by simp
  qed
qed

lemma completionOrder_oldest_first:
  "\<not> rejected (finalPool up [] params) \<Longrightarrow>
   completionOrder up [] params = filter (pageOk up) (requestedOffsets up params)"
proof (cases "first_page up")
  case (PageOk body)
  assume nr: "\<not> rejected (finalPool up [] params)"
  show ?thesis
  proof (cases "needsMore (length (hitsOf body)) (targetCountOf (totalMatchesOf body) (maxResultsOf params))")
    case True
    with PageOk nr show ?thesis
      by (simp add: finalPool_def completionOrder_def requestedOffsets_def crawlPages_def Let_def
          launchAll_oldest_first)
  next
    case False
    with PageOk show ?thesis
      by (simp add: finalPool_def completionOrder_def requestedOffsets_def crawlPages_def Let_def)
  qed
qed (simp_all add: finalPool_def completionOrder_def requestedOffsets_def)

lemma offsetsFrom_lower: "x \<in> set (offsetsFrom f t) \<Longrightarrow> f \<le> x"
proof (induction f t rule: offsetsFrom.induct)
  case (1 f t)
  then show ?case
    by (subst (asm) (2) offsetsFrom.simps) (auto simp: BATCH_SIZE_def split: if_splits)
qed

lemma offsetsFrom_ascending: "sorted_wrt (<) (offsetsFrom f t)"
proof (induction f t rule: offsetsFrom.induct)
  case (1 f t)
  show ?case
  proof (cases "f < t")
    case True
    have "\<forall>x \<in> set (offsetsFrom (f + BATCH_SIZE) t). f < x"
    proof
      fix x
      assume "x \<in> set (offsetsFrom (f + BATCH_SIZE) t)"
      then have "f + BATCH_SIZE \<le> x"
        by (rule offsetsFrom_lower)
      then show "f < x"
        by (simp add: BATCH_SIZE_def)
    qed
    with True "1.IH" show ?thesis by (subst offsetsFrom.simps) simp
  next
    case False
    then show ?thesis by (subst offsetsFrom.simps) simp
  qed
qed

lemma requestedOffsets_ascending: "sorted_wrt (<) (requestedOffsets up params)"
  by (cases "first_page up") (simp_all add: requestedOffsets_def Let_def offsetsFrom_ascending)


section \<open>The crawl on the sample service\<close>

lemma showNat_nonempty: "showNat n \<noteq> []"
  by (subst showNat.simps) simp

lemma parseInt_2020: "parseInt ''2020'' = Some 2020"
  by (simp add: parseInt_def isWhiteSpace_def isDigit_def digitsValue_def Let_def)

lemma toArticle_sampleHit: "toArticle txt r (sampleHit n) = sampleArticle txt n"
  using showNat_nonempty [of n]
  by (simp add: toArticle_def sampleHit_def sampleArticle_def empty_info_def Let_def or_else_def
      getVenueType_def startsWith_def cleanText_def truthy_def parseAuthors_def)

lemma passesFilter_sampleArticle:
  "passesFilter (sampleParams tf n) (sampleArticle txt k) = (tf \<noteq> FilterJournal)"
  by (cases tf) (simp_all add: passesFilter_def sampleArticle_def sampleParams_def parseInt_2020 truthy_def)

lemma toArticles_map_aux:
  "(\<And>r h. h \<in> set raw \<Longrightarrow> toArticle txt r h = g h) \<Longrightarrow>
   map (\<lambda>(i, hit). toArticle txt (rnd i) hit) (enumerate k raw) = map g raw"
  by (induction raw arbitrary: k) simp_all

lemma toArticles_sample: "toArticles txt rnd (map sampleHit ns) = map (sampleArticle txt) ns"
  unfolding toArticles_def
  by (rule trans [OF toArticles_map_aux [where g = "\<lambda>h. toArticle txt [] h"]])
     (auto simp: toArticle_sampleHit)

lemma assemble_sample:
  "tf \<noteq> FilterJournal \<Longrightarrow> length ns \<le> m \<Longrightarrow>
   assemble txt rnd (sampleParams tf n) m (map sampleHit ns) = map (sampleArticle txt) ns"
  by (simp add: assemble_def toArticles_sample passesFilter_sampleArticle take_map)

lemma effectiveQuery_sample: "effectiveQuery (sampleParams tf n) = ''graph''"
  by (simp add: effectiveQuery_def sampleParams_def trim_def isWhiteSpace_def)

lemma fetchDBLPData_after_first_page:
  assumes "effectiveQuery params \<noteq> []" "first_page up = PageOk body"
    "crawlPages up (maxResultsOf params) sched body = st"
  shows "fetchDBLPData up txt rnd sched params
         = \<lparr> callbacks = progress st,
             outcome = (if rejected st then Inl Cancelled
                        else Inr (assemble txt rnd params (maxResultsOf params) (allHits st))) \<rparr>"
  using assms by (simp add: fetchDBLPData_def maxResultsOf_def Let_def)

lemma sampleParams_query: "effectiveQuery (sampleParams tf n) \<noteq> []"
  by (simp add: effectiveQuery_sample)

lemma sampleParams_max: "0 < n \<Longrightarrow> maxResultsOf (sampleParams tf n) = n"
  by (simp add: maxResultsOf_def sampleParams_def)

lemma sample_first_100:
  "100 \<le> tot \<Longrightarrow> first_page (sampleService tot)
     = PageOk \<lparr> b_total = Some (showNat tot), b_hits = Some (map sampleHit [0..<100]) \<rparr>"
  by (simp add: sampleService_def samplePage_def BATCH_SIZE_def del: upt_rec_numeral)

lemma showNat_values: "showNat 300 = ''300''" "showNat 200 = ''200''" "showNat 1000 = ''1000''"
   "showNat 100 = ''100''" "showNat 99 = ''99''" "showNat 2 = ''2''" "showNat 1 = ''1''" "showNat 0 = ''0''"
  by code_simp+

lemma parseInt_values: "parseInt ''300'' = Some 300" "parseInt ''200'' = Some 200"
   "parseInt ''1000'' = Some 1000" "parseInt ''2'' = Some 2" "parseInt ''1'' = Some 1"
  by (simp_all add: parseInt_def isWhiteSpace_def isDigit_def digitsValue_def Let_def)

lemma offsets_values: "offsetsFrom 100 300 = [100, 200]" "offsetsFrom 100 200 = [100]"
  by (simp_all add: offsetsFrom.simps BATCH_SIZE_def)

lemmas crawl_eval = crawlPages_def totalMatchesOf_def truthy_def parseInt_values hitsOf_def
     effectiveTotal_def targetCountOf_def needsMore_def offsets_values CONCURRENCY_LIMIT_def
     awaitAll.simps settle_def sampleService_def samplePage_def showNat_values BATCH_SIZE_def

lemma sample300_pool:
  "crawlPages (sampleService 300) 300 secondFirst
     \<lparr> b_total = Some ''300'', b_hits = Some (map sampleHit [0..<100]) \<rparr>
   = \<lparr> active = [], allHits = map sampleHit ([0..<100] @ [200..<300] @ [100..<200]),
       progress = [(100, 300), (200, 300), (300, 300)], pushed = [200, 100], rejected = False \<rparr>"
  by (simp add: crawl_eval secondFirst_def del: upt_rec_numeral)

lemma sample300_crawl:
  "fetchDBLPData (sampleService 300) txt rnd secondFirst (sampleParams FilterAll 300)
   = \<lparr> callbacks = [(100, 300), (200, 300), (300, 300)],
       outcome = Inr (map (sampleArticle txt) ([0..<100] @ [200..<300] @ [100..<200])) \<rparr>"
proof -
  have fp: "first_page (sampleService 300)
            = PageOk \<lparr> b_total = Some ''300'', b_hits = Some (map sampleHit [0..<100]) \<rparr>"
    by (simp add: sample_first_100 showNat_values)
  have pool: "crawlPages (sampleService 300) (maxResultsOf (sampleParams FilterAll 300)) secondFirst
                \<lparr> b_total = Some ''300'', b_hits = Some (map sampleHit [0..<100]) \<rparr>
              = \<lparr> active = [], allHits = map sampleHit ([0..<100] @ [200..<300] @ [100..<200]),
                  progress = [(100, 300), (200, 300), (300, 300)], pushed = [200, 100],
                  rejected = False \<rparr>"
    by (simp add: sampleParams_max sample300_pool)
  have asm: "assemble txt rnd (sampleParams FilterAll 300) 300 (map sampleHit ([0..<100] @ [200..<300] @ [100..<200]))
             = map (sampleArticle txt) ([0..<100] @ [200..<300] @ [100..<200])"
    by (rule assemble_sample) simp_all
  show ?thesis
    by (simp add: fetchDBLPData_after_first_page [OF sampleParams_query fp pool] sampleParams_max asm
        del: upt_rec_numeral map_append)
qed



lemma sample300_pool_in_order:
  "crawlPages (sampleService 300) 300 []
     \<lparr> b_total = Some ''300'', b_hits = Some (map sampleHit [0..<100]) \<rparr>
   = \<lparr> active = [], allHits = map sampleHit ([0..<100] @ [100..<200] @ [200..<300]),
       progress = [(100, 300), (200, 300), (300, 300)], pushed = [100, 200], rejected = False \<rparr>"
  by (simp add: crawl_eval del: upt_rec_numeral)

lemma sample300_crawl_in_order:
  "fetchDBLPData (sampleService 300) txt rnd [] (sampleParams FilterAll 300)
   = \<lparr> callbacks = [(100, 300), (200, 300), (300, 300)],
       outcome = Inr (map (sampleArticle txt) ([0..<100] @ [100..<200] @ [200..<300])) \<rparr>"
proof -
  have fp: "first_page (sampleService 300)
            = PageOk \<lparr> b_total = Some ''300'', b_hits = Some (map sampleHit [0..<100]) \<rparr>"
    by (simp add: sample_first_100 showNat_values)
  have pool: "crawlPages (sampleService 300) (maxResultsOf (sampleParams FilterAll 300)) []
                \<lparr> b_total = Some ''300'', b_hits = Some (map sampleHit [0..<100]) \<rparr>
              = \<lparr> active = [], allHits = map sampleHit ([0..<100] @ [100..<200] @ [200..<300]),
                  progress = [(100, 300), (200, 300), (300, 300)], pushed = [100, 200],
                  rejected = False \<rparr>"
    by (simp add: sampleParams_max sample300_pool_in_order)
  have asm: "assemble txt rnd (sampleParams FilterAll 300) 300 (map sampleHit ([0..<100] @ [100..<200] @ [200..<300]))
             = map (sampleArticle txt) ([0..<100] @ [100..<200] @ [200..<300])"
    by (rule assemble_sample) simp_all
  show ?thesis
    by (simp add: fetchDBLPData_after_first_page [OF sampleParams_query fp pool] sampleParams_max asm
        del: upt_rec_numeral map_append)
qed


text \<open>Identifiers of the normalised records.\<close>

lemma toArticle_id: "truthy (h_id h) \<Longrightarrow> a_id (toArticle txt r h) = the (h_id h)"
  by (cases "h_id h") (simp_all add: toArticle_def Let_def or_else_def truthy_def)

lemma toArticles_ids_aux:
  "\<forall>h \<in> set raw. truthy (h_id h) \<Longrightarrow>
   map a_id (map (\<lambda>(i, hit). toArticle txt (rnd i) hit) (enumerate k raw)) = map (\<lambda>h. the (h_id h)) raw"
  by (induction raw arbitrary: k) (simp_all add: toArticle_id)

lemma toArticles_ids:
  "\<forall>h \<in> set raw. truthy (h_id h) \<Longrightarrow>
   map a_id (toArticles txt rnd raw) = map (\<lambda>h. the (h_id h)) raw"
  unfolding toArticles_def by (rule toArticles_ids_aux)

lemma distinct_ids:
  assumes "\<forall>h \<in> set raw. truthy (h_id h)" "distinct (map h_id raw)"
  shows "distinct (map (\<lambda>h. the (h_id h)) raw)"
proof -
  have d: "distinct raw" and inj: "inj_on h_id (set raw)"
    using assms(2) by (simp_all add: distinct_map)
  have "inj_on (\<lambda>h. the (h_id h)) (set raw)"
  proof (rule inj_onI)
    fix x y
    assume x: "x \<in> set raw" and y: "y \<in> set raw" and e: "the (h_id x) = the (h_id y)"
    have "h_id x \<noteq> None" "h_id y \<noteq> None"
      using assms(1) x y by (auto simp: truthy_def split: option.splits)
    then have "h_id x = h_id y"
      using e by auto
    then show "x = y"
      using inj x y by (auto dest: inj_onD)
  qed
  with d show ?thesis by (simp add: distinct_map)
qed

lemma overlap_pool:
  "crawlPages overlapService 200 sched
     \<lparr> b_total = Some ''200'', b_hits = Some (map sampleHit [0..<100]) \<rparr>
   = \<lparr> active = [], allHits = map sampleHit ([0..<100] @ [99..<199]),
       progress = [(100, 200), (200, 200)], pushed = [100], rejected = False \<rparr>"
  by (cases sched) (simp_all add: crawl_eval overlapService_def del: upt_rec_numeral)

lemma overlap_crawl:
  "fetchDBLPData overlapService txt rnd sched (sampleParams FilterAll 200)
   = \<lparr> callbacks = [(100, 200), (200, 200)],
       outcome = Inr (map (sampleArticle txt) ([0..<100] @ [99..<199])) \<rparr>"
proof -
  have fp: "first_page (overlapService)
            = PageOk \<lparr> b_total = Some ''200'', b_hits = Some (map sampleHit [0..<100]) \<rparr>"
    by (simp add: sampleService_def overlapService_def samplePage_def showNat_values BATCH_SIZE_def del: upt_rec_numeral)
  have pool: "crawlPages (overlapService) (maxResultsOf (sampleParams FilterAll 200)) sched
                \<lparr> b_total = Some ''200'', b_hits = Some (map sampleHit [0..<100]) \<rparr>
              = \<lparr> active = [], allHits = map sampleHit ([0..<100] @ [99..<199]),
                  progress = [(100, 200), (200, 200)], pushed = [100], rejected = False \<rparr>"
    by (simp add: sampleParams_max overlap_pool)
  have asm: "assemble txt rnd (sampleParams FilterAll 200) 200 (map sampleHit ([0..<100] @ [99..<199]))
             = map (sampleArticle txt) ([0..<100] @ [99..<199])"
    by (rule assemble_sample) simp_all
  show ?thesis
    by (simp add: fetchDBLPData_after_first_page [OF sampleParams_query fp pool] sampleParams_max asm
        del: upt_rec_numeral map_append)
qed

lemma parseInt_to_appear: "parseInt ''to appear'' = None"
  by (simp add: parseInt_def isWhiteSpace_def isDigit_def Let_def)


section \<open>No hit is dropped\<close>

text \<open>
  The received hits are what the pool has accumulated; as a multiset they are the hits
  of the first page and of all requested pages, whatever the completion order.
\<close>

lemma concat_pageHits_ok:
  "concat (map (pageHits up) (filter (pageOk up) offs)) = concat (map (pageHits up) offs)"
  by (induction offs) (auto simp: pageHits_def pageOk_def split: page_outcome.splits)

lemma mset_concat_map_permuted:
  assumes "mset xs = mset ys"
  shows "mset (concat (map f xs)) = mset (concat (map f ys))"
proof -
  have "mset (concat (map f zs)) = sum_mset (image_mset (\<lambda>z. mset (f z)) (mset zs))" for zs
    by (induction zs) simp_all
  then show ?thesis
    using assms by simp
qed

lemma receivedHits_all_pages:
  assumes "\<not> rejected (finalPool up sched params)"
  shows "mset (receivedHits up sched params)
         = mset (firstHits up) + mset (concat (map (pageHits up) (requestedOffsets up params)))"
proof -
  have "mset (concat (map (pageHits up) (completionOrder up sched params)))
        = mset (concat (map (pageHits up) (filter (pageOk up) (requestedOffsets up params))))"
    using completionOrder_permutes [OF assms] by (rule mset_concat_map_permuted)
  then show ?thesis
    by (simp add: receivedHits_def concat_pageHits_ok)
qed

lemma fetchDBLPData_records:
  assumes "outcome (fetchDBLPData up txt rnd sched params) = Inr arts"
  shows "arts = filter (passesFilter params)
                  (toArticles txt rnd (take (maxResultsOf params) (receivedHits up sched params)))"
  using fetchDBLPData_Inr [OF assms]
  by (simp add: assemble_def receivedHits_def finalPool_allHits)

text \<open>Two hits that pass the filter and share a key leave two records with that key.\<close>

lemma toArticles_nth:
  "i < length raw \<Longrightarrow> toArticles txt rnd raw ! i = toArticle txt (rnd i) (raw ! i)"
  by (simp add: toArticles_def nth_enumerate_eq)

lemma length_toArticles: "length (toArticles txt rnd raw) = length raw"
  by (simp add: toArticles_def)

lemma filter_two_positions:
  assumes "i < j" "j < length xs" "Q (xs ! i)" "Q (xs ! j)"
  shows "2 \<le> length (filter Q xs)"
proof -
  have "i < length (take j xs)"
    using assms(1,2) by simp
  then have "take j xs ! i \<in> set (take j xs)"
    by (rule nth_mem)
  moreover have "take j xs ! i = xs ! i"
    using assms(1) by (rule nth_take)
  ultimately have "xs ! i \<in> set (filter Q (take j xs))"
    using assms(3) by simp
  then have a: "0 < length (filter Q (take j xs))"
    by (rule length_pos_if_in_set)
  have "drop j xs = xs ! j # drop (Suc j) xs"
    using assms(2) by (simp add: Cons_nth_drop_Suc)
  then have "filter Q (drop j xs) = xs ! j # filter Q (drop (Suc j) xs)"
    using assms(4) by simp
  then have b: "0 < length (filter Q (drop j xs))"
    by simp
  have "filter Q (take j xs @ drop j xs) = filter Q (take j xs) @ filter Q (drop j xs)"
    by (rule filter_append)
  then have "length (filter Q xs) = length (filter Q (take j xs)) + length (filter Q (drop j xs))"
    by simp
  with a b show ?thesis by linarith
qed

lemma distinct_map_filter_le_1:
  "distinct (map f zs) \<Longrightarrow> length (filter (\<lambda>x. f x = y) zs) \<le> 1"
proof (induction zs)
  case Nil
  then show ?case by simp
next
  case (Cons z zs)
  show ?case
  proof (cases "f z = y")
    case True
    then have "y \<notin> f ` set zs"
      using Cons.prems by auto
    then have "filter (\<lambda>x. f x = y) zs = []"
      by (auto simp: filter_empty_conv)
    with True show ?thesis by simp
  next
    case False
    then show ?thesis using Cons by simp
  qed
qed

lemma repeated_key_not_distinct:
  assumes "i < j" "j < length xs" "P (xs ! i)" "P (xs ! j)" "f (xs ! i) = f (xs ! j)"
  shows "\<not> distinct (map f (filter P xs))"
proof
  assume d: "distinct (map f (filter P xs))"
  have two: "2 \<le> length (filter (\<lambda>x. P x \<and> f x = f (xs ! i)) xs)"
  proof (rule filter_two_positions [of i j])
    show "i < j" by (rule assms(1))
    show "j < length xs" by (rule assms(2))
    show "P (xs ! i) \<and> f (xs ! i) = f (xs ! i)" using assms(3) by simp
    show "P (xs ! j) \<and> f (xs ! j) = f (xs ! i)" using assms(4,5) by simp
  qed
  have eq: "filter (\<lambda>x. f x = f (xs ! i)) (filter P xs)
            = filter (\<lambda>x. P x \<and> f x = f (xs ! i)) xs"
    by (rule filter_filter)
  have "length (filter (\<lambda>x. P x \<and> f x = f (xs ! i)) xs) \<le> 1"
    using distinct_map_filter_le_1 [OF d, of "f (xs ! i)"] by (simp only: eq)
  with two show False by linarith
qed

text \<open>The sample service numbers its papers injectively.\<close>

lemma digitsValue_snoc: "digitsValue (ds @ [c]) = digitsValue ds * 10 + (int (of_char c) - 48)"
  by (simp add: digitsValue_def)

lemma digitsValue_showNat: "digitsValue (showNat n) = int n"
proof (induction n rule: showNat.induct)
  case (1 n)
  show ?case
  proof (cases "n < 10")
    case True
    then show ?thesis
      by (subst showNat.simps) (simp add: digitsValue_def)
  next
    case False
    have "n mod 10 < 10" by simp
    then have "(48 + n mod 10) mod 256 = 48 + n mod 10" by simp
    moreover have "int (n div 10) * 10 + int (n mod 10) = int n"
      by presburger
    ultimately show ?thesis
      using False "1.IH" by (subst showNat.simps) (simp add: digitsValue_snoc)
  qed
qed

lemma showNat_inj:
  assumes "showNat a = showNat b"
  shows "a = b"
proof -
  have "int a = digitsValue (showNat a)"
    by (simp only: digitsValue_showNat)
  also have "\<dots> = digitsValue (showNat b)"
    by (simp only: assms)
  also have "\<dots> = int b"
    by (simp only: digitsValue_showNat)
  finally show ?thesis by simp
qed



lemma h_id_sampleHit: "h_id (sampleHit n) = Some (showNat n)"
  by (simp add: sampleHit_def)

lemma distinct_sampleHit_ids:
  assumes "distinct ns"
  shows "distinct (map h_id (map sampleHit ns))"
proof -
  have "inj_on (\<lambda>n. h_id (sampleHit n)) (set ns)"
  proof (rule inj_onI)
    fix a b
    assume "h_id (sampleHit a) = h_id (sampleHit b)"
    then have "showNat a = showNat b"
      by (simp only: h_id_sampleHit option.inject)
    then show "a = b"
      by (rule showNat_inj)
  qed
  with assms have "distinct (map (\<lambda>n. h_id (sampleHit n)) ns)"
    by (simp only: distinct_map simp_thms)
  then show ?thesis
    by (simp only: map_map comp_def)
qed

lemma receivedHits_allHits:
  "receivedHits up sched params = allHits (finalPool up sched params)"
  by (simp only: receivedHits_def finalPool_allHits)

lemma overlap_received:
  "take (maxResultsOf (sampleParams FilterAll 200))
        (receivedHits overlapService sched (sampleParams FilterAll 200))
   = map sampleHit ([0..<100] @ [99..<199])"
proof -
  have fp: "first_page overlapService
            = PageOk \<lparr> b_total = Some ''200'', b_hits = Some (map sampleHit [0..<100]) \<rparr>"
    by (simp add: overlapService_def samplePage_def showNat_values BATCH_SIZE_def
        del: upt_rec_numeral)
  have "allHits (finalPool overlapService sched (sampleParams FilterAll 200))
        = map sampleHit ([0..<100] @ [99..<199])"
    by (simp add: finalPool_def fp sampleParams_max overlap_pool del: upt_rec_numeral map_append)
  then show ?thesis
    by (simp add: receivedHits_allHits sampleParams_max del: upt_rec_numeral map_append)
qed

lemma sample300_received:
  "take (maxResultsOf (sampleParams FilterAll 300))
        (receivedHits (sampleService 300) secondFirst (sampleParams FilterAll 300))
   = map sampleHit ([0..<100] @ [200..<300] @ [100..<200])"
proof -
  have fp: "first_page (sampleService 300)
            = PageOk \<lparr> b_total = Some ''300'', b_hits = Some (map sampleHit [0..<100]) \<rparr>"
    by (simp add: sample_first_100 showNat_values)
  have "allHits (finalPool (sampleService 300) secondFirst (sampleParams FilterAll 300))
        = map sampleHit ([0..<100] @ [200..<300] @ [100..<200])"
    by (simp add: finalPool_def fp sampleParams_max sample300_pool del: upt_rec_numeral map_append)
  then show ?thesis
    by (simp add: receivedHits_allHits sampleParams_max del: upt_rec_numeral map_append)
qed

lemma overlap_hit_99: "map sampleHit ([0..<100] @ [99..<199]) ! 99 = sampleHit 99"
  by (simp add: nth_append del: upt_rec_numeral)

lemma overlap_hit_100: "map sampleHit ([0..<100] @ [99..<199]) ! 100 = sampleHit 99"
  by (simp add: nth_append del: upt_rec_numeral)

lemma passesFilter_sampleHit:
  "passesFilter (sampleParams FilterAll n) (toArticle txt r (sampleHit k))"
  by (simp add: toArticle_sampleHit passesFilter_sampleArticle)

lemma truthy_sampleHit: "truthy (h_id (sampleHit n))"
  by (simp add: sampleHit_def truthy_def showNat_nonempty)


section \<open>Analytics on sample titles\<close>

lemma tokenize_leap: "tokenize ''Leap Year Bugs'' = [''leap'', ''year'', ''bugs'']" by code_simp
lemma tokenize_neural: "tokenize ''Neural Compression'' = [''neural'', ''compression'']" by code_simp
lemma tokenize_gnn: "tokenize ''Graph Neural Networks'' = [''graph'', ''neural'']" by code_simp
lemma tokenize_gdb: "tokenize ''Graph Databases'' = [''graph'', ''databases'']" by code_simp
lemma tokenize_graph: "tokenize ''Graph'' = [''graph'']" by code_simp
lemma tokenize_graph_graph: "tokenize ''Graph Graph'' = [''graph'', ''graph'']" by code_simp

lemma sort_two_years: "sort [''2020'', ''2021''] = [''2020'', ''2021'']" by code_simp
lemma sort_three_years: "sort [''2021'', ''999'', ''2020''] = [''2020'', ''2021'', ''999'']" by code_simp


section \<open>Venue-type classification\<close>

lemma startsWith_Cons:
  "startsWith s (c # p) = (case s of [] \<Rightarrow> False | x # xs \<Rightarrow> x = c \<and> startsWith xs p)"
  by (cases s) (auto simp: startsWith_def)

lemma startsWith_journals_not_conf:
  "startsWith key ''journals/'' \<Longrightarrow> \<not> startsWith key ''conf/''"
  by (cases key) (auto simp: startsWith_Cons)

text \<open>
  C7 (as stated, refuted): the type field does not take precedence over the key prefix.
  A hit whose type field is \<^verbatim>\<open>Inproceedings\<close> and whose key starts with
  \<^verbatim>\<open>journals/\<close> is classified Journal, not Conference.
\<close>

theorem getVenueType_prefix_beats_type:
  "getVenueType (Some ''Inproceedings'') ''journals/corr/abs-2001-00001'' = Journal
   \<and> getVenueType (Some ''Inproceedings'') ''journals/corr/abs-2001-00001'' \<noteq> Conference"
  by (simp add: getVenueType_def startsWith_def)

text \<open>
  C7 (amended): classification tests Journal before Conference, and each test joins the
  type field with the key prefix. A type field of \<^verbatim>\<open>Article\<close> gives Journal
  whatever the key (also a \<^verbatim>\<open>conf/\<close> key); a key starting with
  \<^verbatim>\<open>journals/\<close> gives Journal whatever the type field (also
  \<^verbatim>\<open>Inproceedings\<close>); a type field of \<^verbatim>\<open>Inproceedings\<close> gives Conference
  exactly when the key does not start with \<^verbatim>\<open>journals/\<close>; a \<^verbatim>\<open>conf/\<close>
  key gives Conference unless the type field is \<^verbatim>\<open>Article\<close>; when neither test
  fires the result is Editorship for that type field and Unknown otherwise.
\<close>

theorem getVenueType_journal_test_first:
  "(ty = Some ''Article'' \<longrightarrow> getVenueType ty key = Journal)
   \<and> (startsWith key ''journals/'' \<longrightarrow> getVenueType ty key = Journal)
   \<and> (ty = Some ''Inproceedings'' \<longrightarrow>
        getVenueType ty key = (if startsWith key ''journals/'' then Journal else Conference))
   \<and> (startsWith key ''conf/'' \<longrightarrow>
        getVenueType ty key = (if ty = Some ''Article'' then Journal else Conference))
   \<and> (ty \<noteq> Some ''Article'' \<and> ty \<noteq> Some ''Inproceedings''
        \<and> \<not> startsWith key ''journals/'' \<and> \<not> startsWith key ''conf/'' \<longrightarrow>
        getVenueType ty key = (if ty = Some ''Editorship'' then Editorship else Unknown))"
  using startsWith_journals_not_conf [of key]
  by (cases key) (auto simp: getVenueType_def startsWith_Cons)

theorem getVenueType_journal_test_first_witness:
  "getVenueType (Some ''Article'') ''conf/icse/Smith20'' = Journal
   \<and> getVenueType (Some ''Inproceedings'') ''journals/tse/Smith20'' = Journal
   \<and> getVenueType (Some ''Inproceedings'') ''conf/icse/Smith20'' = Conference
   \<and> getVenueType None ''conf/icse/Smith20'' = Conference
   \<and> getVenueType (Some ''Editorship'') ''books/x'' = Editorship
   \<and> getVenueType (Some ''Book'') ''books/x'' = Unknown"
  using getVenueType_journal_test_first [of "Some ''Article''" "''conf/icse/Smith20''"]
        getVenueType_journal_test_first [of "Some ''Inproceedings''" "''journals/tse/Smith20''"]
        getVenueType_journal_test_first [of "Some ''Inproceedings''" "''conf/icse/Smith20''"]
        getVenueType_journal_test_first [of None "''conf/icse/Smith20''"]
        getVenueType_journal_test_first [of "Some ''Editorship''" "''books/x''"]
        getVenueType_journal_test_first [of "Some ''Book''" "''books/x''"]
  by (simp add: startsWith_def)

section \<open>Author normalisation\<close>

text \<open>
  C6 (the code at the failing input): a hit whose \<^verbatim>\<open>authors.author\<close> is the empty
  array gets the empty author list, not the placeholder: the array is truthy, so the
  \<^verbatim>\<open>!authorsData\<close> test lets it through to the \<^verbatim>\<open>Array.isArray\<close> branch.
\<close>

theorem parseAuthors_empty_array:
  "parseAuthors txt (Some (empty_info\<lparr> i_authors := Some (AuthorArray []) \<rparr>)) = []
   \<and> a_authors (toArticle txt rnd
         \<lparr> h_id = Some ''4711'',
           h_info = Some (empty_info\<lparr> i_title := Some ''Proceedings'',
                                      i_authors := Some (AuthorArray []) \<rparr>) \<rparr>) = []"
  by (simp add: toArticle_def parseAuthors_def empty_info_def Let_def)

text \<open>Every other shape of the author field gives a non-empty list.\<close>

lemma parseAuthors_nonempty_unless_empty_array:
  "i_authors nfo \<noteq> Some (AuthorArray []) \<Longrightarrow> parseAuthors txt (Some nfo) \<noteq> []"
  by (auto simp: parseAuthors_def split: option.splits author_data.splits)


section \<open>Retrying a request\<close>

text \<open>
  C4 (the code at the failing input): a service that answers 404 to every request is
  asked three times, with the delays of 1, 2 and 3 seconds awaited, before the error
  for the status is thrown.
\<close>

theorem fetchWithRetry_retries_404:
  "fetchWithRetry (\<lambda>i. Response 404) 3
     = \<lparr> f_result = Inl (HttpError 404), f_requests = 3, f_delays = [1000, 2000, 3000] \<rparr>"
  by (simp add: fetchWithRetry_def retryLoop.simps response_ok_def)

text \<open>The same for every status that is neither ok, 5xx nor 429.\<close>

lemma fetchWithRetry_retries_permanent:
  "\<not> response_ok s \<Longrightarrow> s < 500 \<Longrightarrow> s \<noteq> 429 \<Longrightarrow>
   fetchWithRetry (\<lambda>i. Response s) 3
     = \<lparr> f_result = Inl (HttpError s), f_requests = 3, f_delays = [1000, 2000, 3000] \<rparr>"
  by (simp add: fetchWithRetry_def retryLoop.simps)

text \<open>An ok response returns at once; 5xx, 429 and transport failures are retried.\<close>

lemma fetchWithRetry_ok:
  "fetchWithRetry (\<lambda>i. Response 200) 3 = \<lparr> f_result = Inr 200, f_requests = 1, f_delays = [] \<rparr>"
  by (simp add: fetchWithRetry_def retryLoop.simps response_ok_def)

lemma fetchWithRetry_retries_transient:
  "fetchWithRetry (\<lambda>i. Response 503) 3
     = \<lparr> f_result = Inl ConnectError, f_requests = 3, f_delays = [1000, 2000, 3000] \<rparr>"
  "fetchWithRetry (\<lambda>i. Response 429) 3
     = \<lparr> f_result = Inl ConnectError, f_requests = 3, f_delays = [1000, 2000, 3000] \<rparr>"
  "fetchWithRetry (\<lambda>i. FetchFailed) 3
     = \<lparr> f_result = Inl NetworkError, f_requests = 3, f_delays = [1000, 2000, 3000] \<rparr>"
  by (simp_all add: fetchWithRetry_def retryLoop.simps response_ok_def)

section \<open>Order of the returned records\<close>

text \<open>
  C1 (as stated, refuted): on the sample service with 300 papers and
  \<^verbatim>\<open>maxResults\<close> 300 the pages at offsets 100 and 200 are in flight together;
  when the second settles first, the papers 200 to 299 stand before the papers 100 to
  199 in the result: position 100 holds paper 200, position 200 holds paper 100.
\<close>

theorem crawl_order_follows_completion:
  "outcome (fetchDBLPData (sampleService 300) id sampleRandom secondFirst (sampleParams FilterAll 300))
     = Inr (map (sampleArticle id) ([0..<100] @ [200..<300] @ [100..<200]))
   \<and> a_id (map (sampleArticle id) ([0..<100] @ [200..<300] @ [100..<200]) ! 100) = ''200''
   \<and> a_id (map (sampleArticle id) ([0..<100] @ [200..<300] @ [100..<200]) ! 200) = ''100''"
proof -
  have "outcome (fetchDBLPData (sampleService 300) id sampleRandom secondFirst (sampleParams FilterAll 300))
     = Inr (map (sampleArticle id) ([0..<100] @ [200..<300] @ [100..<200]))"
    by (simp only: sample300_crawl crawl.simps)
  moreover have "a_id (map (sampleArticle id) ([0..<100] @ [200..<300] @ [100..<200]) ! 100) = ''200''"
    by (simp add: nth_append sampleArticle_def showNat_values del: upt_rec_numeral)
  moreover have "a_id (map (sampleArticle id) ([0..<100] @ [200..<300] @ [100..<200]) ! 200) = ''100''"
    by (simp add: nth_append sampleArticle_def showNat_values del: upt_rec_numeral)
  ultimately show ?thesis by (simp only: simp_thms)
qed

text \<open>
  C1 (amended): for every crawl that returns records and for every order in which the
  page fetches complete, the returned sequence is made of the first page's hits followed
  by the hits of each later page in the order in which the fetches completed, cut to
  \<^verbatim>\<open>maxResults\<close>, normalised and filtered. The completion order is a
  permutation of the requested offsets whose fetch succeeded; the offsets are requested
  in ascending order; and when the oldest fetch in flight always completes first (the
  exhausted schedule), the completion order is the ascending order of the offsets.
\<close>

theorem crawl_records_in_completion_order:
  assumes "outcome (fetchDBLPData up txt rnd sched params) = Inr arts"
  shows "arts = assemble txt rnd params (maxResultsOf params)
                  (firstHits up @ concat (map (pageHits up) (completionOrder up sched params)))
         \<and> mset (completionOrder up sched params)
             = mset (filter (pageOk up) (requestedOffsets up params))
         \<and> sorted_wrt (<) (requestedOffsets up params)
         \<and> (sched = [] \<longrightarrow>
              completionOrder up sched params = filter (pageOk up) (requestedOffsets up params))"
proof -
  have a: "arts = assemble txt rnd params (maxResultsOf params) (allHits (finalPool up sched params))"
    and nr: "\<not> rejected (finalPool up sched params)"
    using fetchDBLPData_Inr [OF assms] by simp_all
  have "arts = assemble txt rnd params (maxResultsOf params)
                  (firstHits up @ concat (map (pageHits up) (completionOrder up sched params)))"
    using a by (simp only: finalPool_allHits)
  moreover have "mset (completionOrder up sched params)
             = mset (filter (pageOk up) (requestedOffsets up params))"
    using nr by (rule completionOrder_permutes)
  moreover have "sorted_wrt (<) (requestedOffsets up params)"
    by (rule requestedOffsets_ascending)
  moreover have "sched = [] \<longrightarrow>
              completionOrder up sched params = filter (pageOk up) (requestedOffsets up params)"
    using nr completionOrder_oldest_first [of up params] by auto
  ultimately show ?thesis by (simp only: simp_thms)
qed

theorem crawl_records_in_completion_order_witness:
  "outcome (fetchDBLPData (sampleService 300) id sampleRandom secondFirst (sampleParams FilterAll 300))
     = Inr (map (sampleArticle id) ([0..<100] @ [200..<300] @ [100..<200]))
   \<and> map (sampleArticle id) ([0..<100] @ [200..<300] @ [100..<200])
     = assemble id sampleRandom (sampleParams FilterAll 300) (maxResultsOf (sampleParams FilterAll 300))
         (firstHits (sampleService 300)
          @ concat (map (pageHits (sampleService 300))
              (completionOrder (sampleService 300) secondFirst (sampleParams FilterAll 300))))
   \<and> mset (completionOrder (sampleService 300) secondFirst (sampleParams FilterAll 300))
     = mset (filter (pageOk (sampleService 300))
               (requestedOffsets (sampleService 300) (sampleParams FilterAll 300)))
   \<and> outcome (fetchDBLPData (sampleService 300) id sampleRandom [] (sampleParams FilterAll 300))
     = Inr (map (sampleArticle id) ([0..<100] @ [100..<200] @ [200..<300]))
   \<and> completionOrder (sampleService 300) [] (sampleParams FilterAll 300)
     = filter (pageOk (sampleService 300))
         (requestedOffsets (sampleService 300) (sampleParams FilterAll 300))"
proof -
  have h1: "outcome (fetchDBLPData (sampleService 300) id sampleRandom secondFirst
                       (sampleParams FilterAll 300))
            = Inr (map (sampleArticle id) ([0..<100] @ [200..<300] @ [100..<200]))"
    by (simp only: sample300_crawl crawl.simps)
  have h2: "outcome (fetchDBLPData (sampleService 300) id sampleRandom [] (sampleParams FilterAll 300))
            = Inr (map (sampleArticle id) ([0..<100] @ [100..<200] @ [200..<300]))"
    by (simp only: sample300_crawl_in_order crawl.simps)
  show ?thesis
    using h1 h2 crawl_records_in_completion_order [OF h1] crawl_records_in_completion_order [OF h2]
    by blast
qed

section \<open>Repeated hits\<close>

text \<open>
  C5 (as stated, refuted): when the upstream list shifts by one place between the
  request for the first page and the request for offset 100, paper 99 closes the first
  page and opens the second; the result holds it twice, at positions 99 and 100, so two
  returned records share an id.
\<close>

theorem crawl_returns_repeated_hit:
  "outcome (fetchDBLPData overlapService id sampleRandom [] (sampleParams FilterAll 200))
     = Inr (map (sampleArticle id) ([0..<100] @ [99..<199]))
   \<and> a_id (map (sampleArticle id) ([0..<100] @ [99..<199]) ! 99) = ''99''
   \<and> a_id (map (sampleArticle id) ([0..<100] @ [99..<199]) ! 100) = ''99''
   \<and> \<not> distinct (map a_id (map (sampleArticle id) ([0..<100] @ [99..<199])))"
proof -
  let ?A = "map (sampleArticle id) ([0..<100] @ [99..<199])"
  have o: "outcome (fetchDBLPData overlapService id sampleRandom [] (sampleParams FilterAll 200)) = Inr ?A"
    by (simp only: overlap_crawl crawl.simps)
  have i99: "a_id (?A ! 99) = ''99''"
    by (simp add: nth_append sampleArticle_def showNat_values del: upt_rec_numeral)
  have i100: "a_id (?A ! 100) = ''99''"
    by (simp add: nth_append sampleArticle_def showNat_values del: upt_rec_numeral)
  have len: "length ?A = 200"
    by simp
  have "map a_id ?A ! 99 = a_id (?A ! 99)" "map a_id ?A ! 100 = a_id (?A ! 100)"
    by (rule nth_map, simp)+
  then have e: "map a_id ?A ! 99 = map a_id ?A ! 100"
    using i99 i100 by (simp only:)
  have nd: "\<not> distinct (map a_id ?A)"
  proof
    assume d: "distinct (map a_id ?A)"
    have "(map a_id ?A ! 99 = map a_id ?A ! 100) = (99 = (100::nat))"
      by (rule nth_eq_iff_index_eq [OF d]) simp_all
    with e show False by simp
  qed
  from o i99 i100 nd show ?thesis by (simp only: simp_thms)
qed

text \<open>
  C5 (amended): fetchDBLPData removes no duplicates. For every crawl that returns
  records, the hits received are all hits of the first page and of every requested later
  page whose fetch succeeded, each as often as the pages carry it; the result holds one
  record for each of the first \<^verbatim>\<open>maxResults\<close> received hits (first page, then
  later pages in completion order) that passes the client-side filters. When those hits
  all carry an \<^verbatim>\<open>@id\<close> and no two of them the same, no two returned records
  share an id; when two of them carry the same \<^verbatim>\<open>@id\<close> and both pass the
  filters, two returned records share that id.
\<close>

theorem crawl_keeps_every_hit:
  assumes "outcome (fetchDBLPData up txt rnd sched params) = Inr arts"
  shows "arts = filter (passesFilter params)
                  (toArticles txt rnd (take (maxResultsOf params) (receivedHits up sched params)))
         \<and> mset (receivedHits up sched params)
             = mset (firstHits up) + mset (concat (map (pageHits up) (requestedOffsets up params)))
         \<and> ((\<forall>h \<in> set (take (maxResultsOf params) (receivedHits up sched params)). truthy (h_id h))
              \<and> distinct (map h_id (take (maxResultsOf params) (receivedHits up sched params)))
             \<longrightarrow> distinct (map a_id arts))
         \<and> (\<forall>i j. i < j \<and> j < length (take (maxResultsOf params) (receivedHits up sched params))
               \<and> truthy (h_id (take (maxResultsOf params) (receivedHits up sched params) ! i))
               \<and> h_id (take (maxResultsOf params) (receivedHits up sched params) ! i)
                   = h_id (take (maxResultsOf params) (receivedHits up sched params) ! j)
               \<and> passesFilter params
                   (toArticle txt (rnd i) (take (maxResultsOf params) (receivedHits up sched params) ! i))
               \<and> passesFilter params
                   (toArticle txt (rnd j) (take (maxResultsOf params) (receivedHits up sched params) ! j))
             \<longrightarrow> \<not> distinct (map a_id arts))"
proof -
  let ?raw = "take (maxResultsOf params) (receivedHits up sched params)"
  let ?all = "toArticles txt rnd ?raw"
  have a: "arts = filter (passesFilter params) ?all"
    using assms by (rule fetchDBLPData_records)
  have m: "mset (receivedHits up sched params)
             = mset (firstHits up) + mset (concat (map (pageHits up) (requestedOffsets up params)))"
    using fetchDBLPData_Inr [OF assms] by (simp add: receivedHits_all_pages)
  have dis: "distinct (map a_id arts)"
    if t: "\<forall>h \<in> set ?raw. truthy (h_id h)" and d: "distinct (map h_id ?raw)"
  proof -
    have "distinct (map a_id ?all)"
      using distinct_ids [OF t d] by (simp only: toArticles_ids [OF t])
    then show ?thesis
      unfolding a by (rule distinct_map_filter)
  qed
  have rep: "\<not> distinct (map a_id arts)"
    if ij: "i < j" "j < length ?raw" and t: "truthy (h_id (?raw ! i))"
      and e: "h_id (?raw ! i) = h_id (?raw ! j)"
      and pi: "passesFilter params (toArticle txt (rnd i) (?raw ! i))"
      and pj: "passesFilter params (toArticle txt (rnd j) (?raw ! j))" for i j
  proof -
    have li: "i < length ?raw"
      using ij by simp
    have ni: "?all ! i = toArticle txt (rnd i) (?raw ! i)"
      using li by (rule toArticles_nth)
    have nj: "?all ! j = toArticle txt (rnd j) (?raw ! j)"
      using ij(2) by (rule toArticles_nth)
    have tj: "truthy (h_id (?raw ! j))"
      using t e by (simp only:)
    have ida: "a_id (?all ! i) = a_id (?all ! j)"
      using e by (simp only: ni nj toArticle_id [OF t] toArticle_id [OF tj])
    have "\<not> distinct (map a_id (filter (passesFilter params) ?all))"
    proof (rule repeated_key_not_distinct [of i j])
      show "i < j" by (rule ij(1))
      show "j < length ?all" using ij(2) by (simp only: length_toArticles)
      show "passesFilter params (?all ! i)" using pi by (simp only: ni)
      show "passesFilter params (?all ! j)" using pj by (simp only: nj)
      show "a_id (?all ! i) = a_id (?all ! j)" by (rule ida)
    qed
    then show ?thesis
      unfolding a .
  qed
  show ?thesis
  proof (intro conjI impI allI)
    show "arts = filter (passesFilter params) ?all" by (rule a)
    show "mset (receivedHits up sched params)
             = mset (firstHits up) + mset (concat (map (pageHits up) (requestedOffsets up params)))"
      by (rule m)
  next
    assume "(\<forall>h \<in> set ?raw. truthy (h_id h)) \<and> distinct (map h_id ?raw)"
    then show "distinct (map a_id arts)"
      using dis by (elim conjE)
  next
    fix i j
    assume "i < j \<and> j < length ?raw \<and> truthy (h_id (?raw ! i)) \<and> h_id (?raw ! i) = h_id (?raw ! j)
            \<and> passesFilter params (toArticle txt (rnd i) (?raw ! i))
            \<and> passesFilter params (toArticle txt (rnd j) (?raw ! j))"
    then show "\<not> distinct (map a_id arts)"
      using rep [of i j] by (elim conjE)
  qed
qed

theorem crawl_keeps_every_hit_witness:
  "outcome (fetchDBLPData overlapService id sampleRandom [] (sampleParams FilterAll 200))
     = Inr (map (sampleArticle id) ([0..<100] @ [99..<199]))
   \<and> (99 :: nat) < 100
   \<and> 100 < length (take (maxResultsOf (sampleParams FilterAll 200))
                      (receivedHits overlapService [] (sampleParams FilterAll 200)))
   \<and> truthy (h_id (take (maxResultsOf (sampleParams FilterAll 200))
                      (receivedHits overlapService [] (sampleParams FilterAll 200)) ! 99))
   \<and> h_id (take (maxResultsOf (sampleParams FilterAll 200))
              (receivedHits overlapService [] (sampleParams FilterAll 200)) ! 99)
     = h_id (take (maxResultsOf (sampleParams FilterAll 200))
              (receivedHits overlapService [] (sampleParams FilterAll 200)) ! 100)
   \<and> passesFilter (sampleParams FilterAll 200)
        (toArticle id (sampleRandom 99)
           (take (maxResultsOf (sampleParams FilterAll 200))
              (receivedHits overlapService [] (sampleParams FilterAll 200)) ! 99))
   \<and> passesFilter (sampleParams FilterAll 200)
        (toArticle id (sampleRandom 100)
           (take (maxResultsOf (sampleParams FilterAll 200))
              (receivedHits overlapService [] (sampleParams FilterAll 200)) ! 100))
   \<and> \<not> distinct (map a_id (map (sampleArticle id) ([0..<100] @ [99..<199])))
   \<and> outcome (fetchDBLPData (sampleService 300) id sampleRandom secondFirst (sampleParams FilterAll 300))
     = Inr (map (sampleArticle id) ([0..<100] @ [200..<300] @ [100..<200]))
   \<and> list_all (\<lambda>h. truthy (h_id h))
        (take (maxResultsOf (sampleParams FilterAll 300))
           (receivedHits (sampleService 300) secondFirst (sampleParams FilterAll 300)))
   \<and> distinct (map h_id
        (take (maxResultsOf (sampleParams FilterAll 300))
           (receivedHits (sampleService 300) secondFirst (sampleParams FilterAll 300))))
   \<and> distinct (map a_id (map (sampleArticle id) ([0..<100] @ [200..<300] @ [100..<200])))"
proof -
  let ?PA = "sampleParams FilterAll 200"
  let ?PB = "sampleParams FilterAll 300"
  let ?rawA = "take (maxResultsOf ?PA) (receivedHits overlapService [] ?PA)"
  let ?rawB = "take (maxResultsOf ?PB) (receivedHits (sampleService 300) secondFirst ?PB)"
  let ?A = "map (sampleArticle id) ([0..<100] @ [99..<199])"
  let ?B = "map (sampleArticle id) ([0..<100] @ [200..<300] @ [100..<200])"
  have h1: "outcome (fetchDBLPData overlapService id sampleRandom [] ?PA) = Inr ?A"
    by (simp only: overlap_crawl crawl.simps)
  have h2: "outcome (fetchDBLPData (sampleService 300) id sampleRandom secondFirst ?PB) = Inr ?B"
    by (simp only: sample300_crawl crawl.simps)
  have a1: "(99 :: nat) < 100"
    by simp
  have a2: "100 < length ?rawA"
    by (simp only: overlap_received) simp
  have a3: "truthy (h_id (?rawA ! 99))"
    by (simp only: overlap_received overlap_hit_99 truthy_sampleHit)
  have a4: "h_id (?rawA ! 99) = h_id (?rawA ! 100)"
    by (simp only: overlap_received overlap_hit_99 overlap_hit_100)
  have a5: "passesFilter ?PA (toArticle id (sampleRandom 99) (?rawA ! 99))"
    by (simp only: overlap_received overlap_hit_99 passesFilter_sampleHit)
  have a6: "passesFilter ?PA (toArticle id (sampleRandom 100) (?rawA ! 100))"
    by (simp only: overlap_received overlap_hit_100 passesFilter_sampleHit)
  have nd: "\<not> distinct (map a_id ?A)"
    by (rule crawl_keeps_every_hit [OF h1, THEN conjunct2, THEN conjunct2, THEN conjunct2, rule_format, of 99 100])
       (intro conjI a1 a2 a3 a4 a5 a6)
  have b1: "\<forall>h \<in> set ?rawB. truthy (h_id h)"
    by (simp only: sample300_received) (auto simp: truthy_sampleHit simp del: upt_rec_numeral)
  have b2: "distinct (map h_id ?rawB)"
    by (simp only: sample300_received, rule distinct_sampleHit_ids) auto
  have d: "distinct (map a_id ?B)"
    by (rule crawl_keeps_every_hit [OF h2, THEN conjunct2, THEN conjunct2, THEN conjunct1, rule_format])
       (intro conjI b1 b2)
  have b1': "list_all (\<lambda>h. truthy (h_id h)) ?rawB"
    using b1 by (simp only: list_all_iff)
  show ?thesis
    by (intro conjI h1 a1 a2 a3 a4 a5 a6 nd h2 b1' b2 d)
qed


section \<open>Target and progress\<close>

text \<open>Without a total in the first page no later page is requested.\<close>

lemma no_total_requests_nothing:
  "first_page up = PageOk body \<Longrightarrow> \<not> truthy (b_total body) \<Longrightarrow>
   requestedOffsets up params = [] \<and> allHits (finalPool up sched params) = hitsOf body"
  by (simp add: requestedOffsets_def finalPool_def crawlPages_def totalMatchesOf_def
      targetCountOf_def needsMore_def Let_def)

text \<open>
  C2 (the code at the failing input): the first page brings 100 hits and no total,
  \<^verbatim>\<open>maxResults\<close> is 250. The progress callback is told the target 250, but the
  crawl ends with the first page: whatever the later pages hold and whatever the
  schedule, the result is the 100 records of the first page. The offsets 100 and 200
  are not requested, since \<^verbatim>\<open>targetCount = Math.min(0, 250)\<close>.
\<close>

theorem no_total_no_later_page:
  "fetchDBLPData \<lparr> first_page = untotalledPage, later_page = later \<rparr> txt rnd sched
     (sampleParams FilterAll 250)
   = \<lparr> callbacks = [(100, 250)], outcome = Inr (map (sampleArticle txt) [0..<100]) \<rparr>"
proof -
  let ?up = "\<lparr> first_page = untotalledPage, later_page = later \<rparr>"
  have fp: "first_page ?up = PageOk \<lparr> b_total = None, b_hits = Some (map sampleHit [0..<100]) \<rparr>"
    by (simp add: untotalledPage_def)
  have asm: "assemble txt rnd (sampleParams FilterAll 250) 250 (map sampleHit [0..<100])
             = map (sampleArticle txt) [0..<100]"
    by (rule assemble_sample) simp_all
  have pool: "crawlPages ?up (maxResultsOf (sampleParams FilterAll 250)) sched
                \<lparr> b_total = None, b_hits = Some (map sampleHit [0..<100]) \<rparr>
    = \<lparr> active = [], allHits = map sampleHit [0..<100], progress = [(100, 250)], pushed = [],
        rejected = False \<rparr>"
    by (simp add: sampleParams_max crawlPages_def totalMatchesOf_def truthy_def hitsOf_def
         effectiveTotal_def targetCountOf_def needsMore_def del: upt_rec_numeral)
  show ?thesis
    by (simp add: fetchDBLPData_after_first_page [OF sampleParams_query fp pool] sampleParams_max asm)
qed

text \<open>
  In every crawl the fetched counts reported are non-decreasing, and every report but
  the first stays within its target.
\<close>

lemma settle_progressOk: "progressOk tc st \<Longrightarrow> progressOk tc (settle up tc f st)"
  by (cases "later_page up f")
     (auto simp: progressOk_def settle_def sorted_append list_all_iff)

lemma awaitAll_progressOk: "progressOk tc st \<Longrightarrow> progressOk tc (awaitAll up tc sched st)"
proof (induction up tc sched st rule: awaitAll.induct)
  case (1 up tc sched st)
  show ?case
  proof (cases "rejected st \<or> active st = []")
    case True
    then show ?thesis using "1.prems" by (subst awaitAll.simps) simp
  next
    case False
    have "progressOk tc (settle up tc (pick sched (active st)) st)"
      using "1.prems" by (rule settle_progressOk)
    then have "progressOk tc (awaitAll up tc (tl sched) (settle up tc (pick sched (active st)) st))"
      using "1.IH" [OF False] by simp
    then show ?thesis
      using False by (subst awaitAll.simps) simp
  qed
qed

lemma launchAll_progressOk: "progressOk tc st \<Longrightarrow> progressOk tc (launchAll up tc sched offs st)"
proof (induction offs arbitrary: sched st)
  case Nil
  then show ?case by (simp add: awaitAll_progressOk)
next
  case (Cons f rest)
  have a: "progressOk tc (st\<lparr> active := active st @ [f] \<rparr>)"
    using Cons.prems by (simp add: progressOk_def)
  have b: "progressOk tc (settle up tc (pick sched (active st @ [f])) (st\<lparr> active := active st @ [f] \<rparr>))"
    using a by (rule settle_progressOk)
  show ?case
    using Cons.prems Cons.IH [OF a] Cons.IH [OF b] by simp
qed

lemma crawlPages_progress:
  "sorted (map fst (progress (crawlPages up m sched body)))
   \<and> list_all (\<lambda>p. fst p \<le> snd p) (tl (progress (crawlPages up m sched body)))"
proof (cases "needsMore (length (hitsOf body)) (targetCountOf (totalMatchesOf body) m)")
  case True
  then obtain t where t: "targetCountOf (totalMatchesOf body) m = Some t" "int (length (hitsOf body)) < t"
    by (auto simp: needsMore_def split: option.splits)
  let ?st0 = "\<lparr> active = [], allHits = hitsOf body,
                 progress = [(length (hitsOf body), effectiveTotal (totalMatchesOf body) m)],
                 pushed = [], rejected = False \<rparr>"
  have "progressOk (nat t) ?st0"
    using t by (simp add: progressOk_def)
  then have "progressOk (nat t) (launchAll up (nat t) sched (offsetsFrom BATCH_SIZE (nat t)) ?st0)"
    by (rule launchAll_progressOk)
  then show ?thesis
    using True t by (simp add: crawlPages_def Let_def progressOk_def)
next
  case False
  then show ?thesis by (simp add: crawlPages_def Let_def)
qed

lemma callbacks_nondecreasing_later_bounded:
  "sorted (map fst (callbacks (fetchDBLPData up txt rnd sched params)))
   \<and> list_all (\<lambda>p. fst p \<le> snd p) (tl (callbacks (fetchDBLPData up txt rnd sched params)))"
  using crawlPages_progress
  by (cases "first_page up") (simp_all add: fetchDBLPData_def Let_def)

text \<open>
  C3 (the code at the failing input): 1000 matches, \<^verbatim>\<open>maxResults\<close> 50. The one
  progress callback of the crawl reports 100 fetched of 50: the call after the first
  page passes \<^verbatim>\<open>allHits.length\<close> as it is.
\<close>

theorem first_callback_exceeds_target:
  "callbacks (fetchDBLPData (sampleService 1000) txt rnd sched (sampleParams FilterAll 50)) = [(100, 50)]"
proof -
  have fp: "first_page (sampleService 1000)
            = PageOk \<lparr> b_total = Some ''1000'', b_hits = Some (map sampleHit [0..<100]) \<rparr>"
    by (simp add: sample_first_100 showNat_values)
  have pool: "crawlPages (sampleService 1000) (maxResultsOf (sampleParams FilterAll 50)) sched
                \<lparr> b_total = Some ''1000'', b_hits = Some (map sampleHit [0..<100]) \<rparr>
    = \<lparr> active = [], allHits = map sampleHit [0..<100], progress = [(100, 50)], pushed = [],
        rejected = False \<rparr>"
    by (simp add: sampleParams_max crawlPages_def totalMatchesOf_def truthy_def parseInt_values
         hitsOf_def effectiveTotal_def targetCountOf_def needsMore_def del: upt_rec_numeral)
  show ?thesis
    by (simp add: fetchDBLPData_after_first_page [OF sampleParams_query fp pool])
qed


section \<open>Client-side filtering of the result\<close>

text \<open>A returned record whose year is a number has the venue type the filter asks for.\<close>

lemma passesFilter_type:
  "passesFilter params a \<Longrightarrow> parseInt (a_year a) \<noteq> None \<Longrightarrow>
   (p_typeFilter params = FilterJournal \<longrightarrow> a_venueType a = Journal)
   \<and> (p_typeFilter params = FilterConference \<longrightarrow> a_venueType a = Conference)"
  by (auto simp: passesFilter_def Let_def split: option.splits type_filter.splits)

lemma crawl_type_filter_numeric_years:
  assumes "outcome (fetchDBLPData up txt rnd sched params) = Inr arts"
    "a \<in> set arts" "parseInt (a_year a) \<noteq> None"
  shows "(p_typeFilter params = FilterJournal \<longrightarrow> a_venueType a = Journal)
         \<and> (p_typeFilter params = FilterConference \<longrightarrow> a_venueType a = Conference)"
proof -
  have "passesFilter params a"
    using fetchDBLPData_Inr [OF assms(1)] assms(2) by (simp add: assemble_def)
  then show ?thesis
    using assms(3) by (rule passesFilter_type)
qed

text \<open>
  C8 (the code at the failing input): with the filter set to journals, a conference
  paper whose year is \<^verbatim>\<open>to appear\<close> is returned: the filter callback returns
  \<^verbatim>\<open>true\<close> for a year that is no number before it looks at the venue type.
\<close>

theorem type_filter_skipped_without_year:
  "outcome (fetchDBLPData undatedService txt rnd sched (sampleParams FilterJournal 50))
     = Inr [toArticle txt (rnd 0) undatedHit]
   \<and> a_venueType (toArticle txt (rnd 0) undatedHit) = Conference
   \<and> a_year (toArticle txt (rnd 0) undatedHit) = ''to appear''"
proof -
  have v: "a_venueType (toArticle txt (rnd 0) undatedHit) = Conference"
    by (simp add: toArticle_def undatedHit_def empty_info_def Let_def getVenueType_def
        or_else_def startsWith_def)
  have y: "a_year (toArticle txt (rnd 0) undatedHit) = ''to appear''"
    by (simp add: toArticle_def undatedHit_def empty_info_def Let_def or_else_def)
  have pf: "passesFilter (sampleParams FilterJournal 50) (toArticle txt (rnd 0) undatedHit)"
    by (simp add: passesFilter_def y parseInt_to_appear)
  have fp: "first_page undatedService = PageOk \<lparr> b_total = Some ''1'', b_hits = Some [undatedHit] \<rparr>"
    by (simp add: undatedService_def)
  have pool: "crawlPages undatedService (maxResultsOf (sampleParams FilterJournal 50)) sched
                \<lparr> b_total = Some ''1'', b_hits = Some [undatedHit] \<rparr>
    = \<lparr> active = [], allHits = [undatedHit], progress = [(1, 1)], pushed = [], rejected = False \<rparr>"
    by (simp add: sampleParams_max crawlPages_def totalMatchesOf_def truthy_def parseInt_values
         hitsOf_def effectiveTotal_def targetCountOf_def needsMore_def)
  have "outcome (fetchDBLPData undatedService txt rnd sched (sampleParams FilterJournal 50))
     = Inr [toArticle txt (rnd 0) undatedHit]"
    using pf
    by (simp add: fetchDBLPData_after_first_page [OF sampleParams_query fp pool] sampleParams_max
        assemble_def toArticles_def)
  with v y show ?thesis by (simp only: simp_thms)
qed

section \<open>Yearly trends\<close>

text \<open>
  What holds for every record collection and every term list: one row per distinct
  year, made from the years in strictly ascending lexicographic order, and in the row of
  a year the count of every requested term is the number of records of that year whose
  tokenized title contains it.
\<close>

lemma set_uniq: "set (uniq xs) = set xs"
  by (induction xs) auto

lemma distinct_uniq: "distinct (uniq xs)"
  by (induction xs) (simp_all add: set_uniq)

lemma sortedYears_strictly_ascending:
  "sorted_wrt (<) (sortedYears articles) \<and> set (sortedYears articles) = a_year ` set articles"
  by (simp add: sortedYears_def set_uniq distinct_uniq strict_sorted_iff)

lemma generateTrends_length:
  "length (generateTrends articles topKeywords) = card (a_year ` set articles)"
proof -
  have "distinct (sortedYears articles)"
    by (simp add: sortedYears_def distinct_uniq)
  then have "card (set (sortedYears articles)) = length (sortedYears articles)"
    by (rule distinct_card)
  then show ?thesis
    by (simp add: generateTrends_def sortedYears_strictly_ascending)
qed

lemma fold_assign:
  "fold (\<lambda>kw entry. entry(kw \<mapsto> g kw)) kws entry k = (if k \<in> set kws then Some (g k) else entry k)"
  by (induction kws arbitrary: entry) auto

lemma trendEntry_count:
  "kw \<in> set topKeywords \<Longrightarrow>
   trendEntry articles topKeywords year kw
     = Some (Num (length (filter (\<lambda>a. a_year a = year \<and> kw \<in> set (tokenize (a_title a))) articles)))"
  by (simp add: trendEntry_def fold_assign countTerm_def conj_commute)

lemma trendEntry_year:
  "trendEntry articles topKeywords year ''year''
     = (if ''year'' \<in> set topKeywords
        then Some (Num (length (filter (\<lambda>a. a_year a = year \<and> ''year'' \<in> set (tokenize (a_title a))) articles)))
        else Some (Str year))"
  by (simp add: trendEntry_def fold_assign countTerm_def conj_commute)

lemma generateTrends_rows:
  "i < length (sortedYears articles) \<Longrightarrow> kw \<in> set topKeywords \<Longrightarrow>
   (generateTrends articles topKeywords ! i) kw
     = Some (Num (length (filter (\<lambda>a. a_year a = sortedYears articles ! i
                                       \<and> kw \<in> set (tokenize (a_title a))) articles)))"
  by (simp add: generateTrends_def trendEntry_count)

lemma generateTrends_years:
  "''year'' \<notin> set topKeywords \<Longrightarrow>
   map (\<lambda>row. row ''year'') (generateTrends articles topKeywords)
     = map (\<lambda>y. Some (Str y)) (sortedYears articles)"
  by (simp add: generateTrends_def trendEntry_year)

lemma sortedYears_lexicographic:
  "sortedYears [paper ''1'' ''2021'' ''A'', paper ''2'' ''999'' ''B'', paper ''3'' ''2020'' ''C'']
     = [''2020'', ''2021'', ''999'']"
  by (simp add: sortedYears_def paper_def sort_three_years)

lemma generateTrends_spec_example:
  "map (\<lambda>row. (row ''year'', row ''graph''))
     (generateTrends [paper ''1'' ''2020'' ''Graph Neural Networks'', paper ''2'' ''2020'' ''Graph Databases'',
                      paper ''3'' ''2021'' ''Neural Compression''] [''graph''])
   = [(Some (Str ''2020''), Some (Num 2)), (Some (Str ''2021''), Some (Num 0))]"
  by (simp add: generateTrends_def sortedYears_def paper_def sort_two_years trendEntry_def countTerm_def tokenize_neural tokenize_gnn tokenize_gdb)

text \<open>
  C9 (the code at the failing input): the row is one object for the \<^verbatim>\<open>year\<close>
  property and the term counts, so the term \<^verbatim>\<open>year\<close> overwrites the year of
  the row with its count. For the records (2020, ``Leap Year Bugs'') and (2021, ``Neural
  Compression'') and the term list [year] the rows read \<^verbatim>\<open>{year: 1}\<close> and
  \<^verbatim>\<open>{year: 0}\<close>: no row carries its year, and the values under
  \<^verbatim>\<open>year\<close> are not ascending.
\<close>

theorem generateTrends_year_overwritten:
  "map (\<lambda>row. row ''year'')
     (generateTrends [paper ''1'' ''2020'' ''Leap Year Bugs'', paper ''2'' ''2021'' ''Neural Compression'']
        [''year''])
   = [Some (Num 1), Some (Num 0)]"
  by (simp add: generateTrends_def sortedYears_def paper_def sort_two_years trendEntry_def countTerm_def tokenize_leap tokenize_neural)


section \<open>Similarity scores\<close>

text \<open>
  C10: similarity scores are not bounded by 1. For the target title ``Graph'' and the
  candidate title ``Graph Graph'' the overlap counts both occurrences, the target has one
  term and the candidate two tokens: the returned score is 2 / sqrt 2, greater than 1,
  and the squared overlap 4 exceeds the product 1 * 2.
\<close>

theorem similarity_score_exceeds_one:
  "\<exists>target candidate r.
     findSimilarArticles target [candidate] 5 = [r]
     \<and> r_article r = candidate
     \<and> 1 < r_score r
     \<and> card (set (tokenize (a_title target))) * length (tokenize (a_title candidate))
         < (length (r_sharedTerms r))\<^sup>2"
proof -
  let ?t = "paper ''1'' ''2020'' ''Graph''"
  let ?c = "paper ''2'' ''2021'' ''Graph Graph''"
  let ?r = "\<lparr> r_article = ?c, r_score = 2 / sqrt 2, r_sharedTerms = [''graph'', ''graph''] \<rparr>"
  have s: "similarityOf (tokenize (a_title ?t)) ?c = ?r"
    by (simp add: similarityOf_def paper_def tokenize_graph tokenize_graph_graph Let_def)
  have gt: "1 < 2 / sqrt 2"
    by (simp add: real_div_sqrt)
  have f: "findSimilarArticles ?t [?c] 5 = [?r]"
    using gt s by (simp add: findSimilarArticles_def paper_def)
  have "card (set (tokenize (a_title ?t))) * length (tokenize (a_title ?c))
          < (length (r_sharedTerms ?r))\<^sup>2"
    by (simp add: paper_def tokenize_graph tokenize_graph_graph power2_eq_square)
  with f gt show ?thesis
    by (intro exI [of _ ?t] exI [of _ ?c] exI [of _ ?r]) simp
qed

end
